theory Spec2Isabelle
  imports Main "HOL-Library.AList"
begin

section \<open>Text operations of the executor\<close>

text \<open>
  Python text is modelled as \<^typ>\<open>string\<close>. The executor uses these operations of
  \<^verbatim>\<open>str\<close>: \<^verbatim>\<open>casefold\<close>, \<^verbatim>\<open>strip\<close>, \<^verbatim>\<open>replace\<close>, \<^verbatim>\<open>split(sep)[0]\<close>,
  the substring test \<^verbatim>\<open>in\<close> and \<^verbatim>\<open>sep.join\<close>. Case folding and white space are those
  of ASCII text: a character outside ASCII is left as it is and is not white space.
\<close>

definition casefold_char :: "char \<Rightarrow> char" where
  "casefold_char c =
     (case map_of (zip ''ABCDEFGHIJKLMNOPQRSTUVWXYZ'' ''abcdefghijklmnopqrstuvwxyz'') c of
        Some l \<Rightarrow> l
      | None \<Rightarrow> c)"

definition casefold :: "string \<Rightarrow> string" where
  "casefold s = map casefold_char s"

definition is_space :: "char \<Rightarrow> bool" where
  "is_space c =
     (c \<in> set [CHR 0x09, CHR 0x0A, CHR 0x0B, CHR 0x0C, CHR 0x0D,
                CHR 0x1C, CHR 0x1D, CHR 0x1E, CHR 0x1F, CHR 0x20])"

definition strip :: "string \<Rightarrow> string" where
  "strip s = rev (dropWhile is_space (rev (dropWhile is_space s)))"

definition startswith :: "string \<Rightarrow> string \<Rightarrow> bool" where
  "startswith s p = (take (length p) s = p)"

text \<open>\<^verbatim>\<open>s.replace(old, new)\<close> for a non-empty \<^verbatim>\<open>old\<close>: leftmost occurrences, not overlapping.\<close>

function replace :: "string \<Rightarrow> string \<Rightarrow> string \<Rightarrow> string" where
  "replace old new [] = []"
| "replace old new (c # cs) =
     (if old \<noteq> [] \<and> startswith (c # cs) old
      then new @ replace old new (drop (length old) (c # cs))
      else c # replace old new cs)"
  by pat_completeness auto
termination
  by (relation "measure (\<lambda>(old, new, s). length s)") auto

text \<open>\<^verbatim>\<open>sub in s\<close>.\<close>

fun contains :: "string \<Rightarrow> string \<Rightarrow> bool" where
  "contains [] sub = (sub = [])"
| "contains (c # cs) sub = (startswith (c # cs) sub \<or> contains cs sub)"

text \<open>\<^verbatim>\<open>s.split(sep)[0]\<close> for a non-empty \<^verbatim>\<open>sep\<close>: the text before its first occurrence.\<close>

fun split_first :: "string \<Rightarrow> string \<Rightarrow> string" where
  "split_first sep [] = []"
| "split_first sep (c # cs) =
     (if startswith (c # cs) sep then [] else c # split_first sep cs)"

fun join :: "string \<Rightarrow> string list \<Rightarrow> string" where
  "join sep [] = []"
| "join sep [x] = x"
| "join sep (x # y # ys) = x @ sep @ join sep (y # ys)"

text \<open>\<^verbatim>\<open>range(i, stop, step)\<close> for a positive step, and the slice \<^verbatim>\<open>s[i:j]\<close>.\<close>

function range_step :: "nat \<Rightarrow> nat \<Rightarrow> nat \<Rightarrow> nat list" where
  "range_step i stop step =
     (if step = 0 \<or> stop \<le> i then [] else i # range_step (i + step) stop step)"
  by pat_completeness auto
termination
  by (relation "measure (\<lambda>(i, stop, step). stop - i)") auto

declare range_step.simps [simp del]

definition slice :: "'a list \<Rightarrow> nat \<Rightarrow> nat \<Rightarrow> 'a list" where
  "slice s i j = take (j - i) (drop i s)"

text \<open>The keys of a \<^verbatim>\<open>dict\<close> built from a list of keys: each key once, at its first place.\<close>

fun dict_keys :: "'a list \<Rightarrow> 'a list" where
  "dict_keys [] = []"
| "dict_keys (k # ks) = k # removeAll k (dict_keys ks)"

section \<open>Data model\<close>

record message =
  role :: string
  content :: string

record agent_action =
  tool :: string
  tool_input :: string
  action_text :: string
  result :: "string option"

record agent_finish =
  finish_output :: string
  finish_text :: string

datatype answer = AgentAction agent_action | AgentFinish agent_finish

text \<open>
  What \<^verbatim>\<open>ToolUsage.parse\<close> gives back: a usage error with its message, or a tool call
  with the requested tool name and its arguments.
\<close>

datatype tool_calling =
  ToolUsageErrorException string
| ToolCalling (tool_name: string) (arguments: string)

text \<open>
  What is raised inside the loop: the parser's \<^verbatim>\<open>OutputParserException\<close> with its
  error text, \<^verbatim>\<open>SystemExit\<close> (not an \<^verbatim>\<open>Exception\<close>), and \<open>Exception m\<close> for an
  exception of any other class whose \<^verbatim>\<open>str\<close> is \<open>m\<close>.
\<close>

datatype exn =
  OutputParserException string
| Exception string
| SystemExit string

text \<open>\<^verbatim>\<open>str(e)\<close>.\<close>

fun str_exn :: "exn \<Rightarrow> string" where
  "str_exn (OutputParserException m) = m"
| "str_exn (Exception m) = m"
| "str_exn (SystemExit m) = m"

text \<open>
  The value of the crew's \<^verbatim>\<open>_train_iteration\<close> attribute, which the executor receives
  untyped, and the training records: agent id, then iteration, then field.
\<close>

datatype pyval = PyInt int | PyStr string | PyNone

text \<open>
  What \<^verbatim>\<open>invoke\<close> and the training-record handler raise: an error of the loop, a
  \<^verbatim>\<open>KeyError\<close> with the missing key, or an \<^verbatim>\<open>AttributeError\<close> with the missing attribute.
\<close>

datatype invoke_error = LoopError exn | KeyError pyval | AttributeError string

type_synonym training_record = "(string \<times> string) list"
type_synonym training_data = "(string \<times> (pyval \<times> training_record) list) list"

record crew =
  train :: bool
  train_iteration :: "pyval option"

text \<open>
  Every call that leaves the executor is recorded, in order, in the trace of the state.
  The collaborators answer from the state they are called in, trace included, so that
  a collaborator may answer differently each time it is called.
\<close>

datatype event =
  RpmLimitChecked
| LLMCalled "string list option" "message list"
| ToolUsageParsed string
| ToolUsed tool_calling string
| StepCallback agent_action
| ForceAnswerChecked
| HumanInputAsked string
| Logged string string
| TrainingLoaded
| TrainingSaved training_data
| TrainingAppended pyval string training_record

record state =
  messages :: "message list"
  iterations :: nat
  have_forced_answer :: bool
  ask_for_human_input :: bool
  trace :: "event list"

text \<open>
  The message catalogue \<^verbatim>\<open>I18N\<close> is not part of the executor: each entry is taken as
  a parameter, a template together with its \<^verbatim>\<open>format\<close> as a function of the arguments.
\<close>

record i18n_catalogue =
  force_final_answer_error :: "string \<Rightarrow> string"
  force_final_answer :: string
  wrong_tool_name :: "string \<Rightarrow> string \<Rightarrow> string"
  summarizer_system_message :: string
  sumamrize_instruction :: "string \<Rightarrow> string"
  summary :: "string \<Rightarrow> string"

text \<open>
  The executor's configuration and its collaborators. \<open>parse\<close> is
  \<^verbatim>\<open>CrewAgentParser.parse\<close>, with \<open>Inl\<close> the error text of an
  \<^verbatim>\<open>OutputParserException\<close>; \<open>llm_call\<close> is \<^verbatim>\<open>LLM(...).call\<close>, which may raise;
  \<open>step_callback\<close> says whether a callback is configured; \<open>tools\<close> holds the name of
  each tool, in the order of \<^verbatim>\<open>self.tools\<close>; \<open>tool_usage_parse\<close> and \<open>tool_usage_use\<close> are
  \<^verbatim>\<open>ToolUsage.parse\<close> and \<^verbatim>\<open>ToolUsage.use\<close>; \<open>should_force_answer\<close>, \<open>ask_human_input\<close>
  and \<open>is_context_limit_error\<close> are the methods of those names, defined outside the
  executor. The fuel of a loop bounds the number of its turns and re-entries only:
  a run that ends within some fuel ends the same way within any larger fuel.
\<close>

record env =
  request_within_rpm_limit :: "(state \<Rightarrow> bool) option"
  llm_call :: "state \<Rightarrow> string list option \<Rightarrow> message list \<Rightarrow> exn + string"
  stop :: "string list"
  use_stop_words :: bool
  parse :: "string \<Rightarrow> string + answer"
  final_answer_and_parsable_action_error_message :: string
  tools :: "string list"
  tool_usage_parse :: "state \<Rightarrow> string \<Rightarrow> tool_calling"
  tool_usage_use :: "state \<Rightarrow> tool_calling \<Rightarrow> string \<Rightarrow> string"
  step_callback :: bool
  should_force_answer :: "state \<Rightarrow> bool"
  respect_context_window :: bool
  is_context_limit_error :: "string \<Rightarrow> bool"
  i18n :: i18n_catalogue
  prompt :: "string \<rightharpoonup> string"
  the_crew :: "crew option"
  agent_id :: string
  agent_role :: string
  ask_human_input :: "state \<Rightarrow> string \<Rightarrow> string"
  training_load :: "state \<Rightarrow> training_data"

definition log :: "string \<Rightarrow> string \<Rightarrow> state \<Rightarrow> state" where
  "log level msg st = st\<lparr>trace := trace st @ [Logged level msg]\<rparr>"

definition format_msg :: "string \<Rightarrow> string \<Rightarrow> message" where
  "format_msg p r = \<lparr>role = r, content = p\<rparr>"

definition format_answer :: "env \<Rightarrow> string \<Rightarrow> string + answer" where
  "format_answer e a = parse e a"

section \<open>Tool dispatch\<close>

definition name_to_tool_map :: "env \<Rightarrow> string list" where
  "name_to_tool_map e = dict_keys (tools e)"

definition tool_name_matches :: "env \<Rightarrow> string \<Rightarrow> bool" where
  "tool_name_matches e n =
     (strip (casefold n) \<in> set (map (\<lambda>k. strip (casefold k)) (name_to_tool_map e))
      \<or> replace ''_'' '' '' (casefold n)
           \<in> set (map (\<lambda>k. strip (casefold k)) (name_to_tool_map e)))"

definition use_tool :: "env \<Rightarrow> state \<Rightarrow> agent_action \<Rightarrow> string \<times> state" where
  "use_tool e st a =
     (let tool_calling = tool_usage_parse e st (action_text a);
          st1 = st\<lparr>trace := trace st @ [ToolUsageParsed (action_text a)]\<rparr>
      in case tool_calling of
           ToolUsageErrorException m \<Rightarrow> (m, st1)
         | ToolCalling n args \<Rightarrow>
             if tool_name_matches e n
             then (tool_usage_use e st1 tool_calling (action_text a),
                   st1\<lparr>trace := trace st1 @ [ToolUsed tool_calling (action_text a)]\<rparr>)
             else (wrong_tool_name (i18n e) n (join '', '' (map casefold (tools e))), st1))"

section \<open>Context-overflow recovery\<close>

text \<open>The first loop of \<^verbatim>\<open>_summarize_messages\<close>: the chunks of every message, in order.\<close>

definition messages_groups :: "message list \<Rightarrow> string list" where
  "messages_groups ms =
     concat (map (\<lambda>m. map (\<lambda>i. slice (content m) i (i + 5000))
                           (range_step 0 (length (content m)) 5000)) ms)"

definition summarize_prompt :: "env \<Rightarrow> string \<Rightarrow> message list" where
  "summarize_prompt e g =
     [format_msg (summarizer_system_message (i18n e)) ''system'',
      format_msg (sumamrize_instruction (i18n e) g) ''user'']"

text \<open>The second loop: one model call for each chunk, the summaries collected in order.\<close>

fun summarize_groups ::
  "env \<Rightarrow> state \<Rightarrow> string list \<Rightarrow> string list \<Rightarrow> (exn + string list) \<times> state" where
  "summarize_groups e st [] summarized_contents = (Inr summarized_contents, st)"
| "summarize_groups e st (g # gs) summarized_contents =
     (let st1 = st\<lparr>trace := trace st @ [LLMCalled None (summarize_prompt e g)]\<rparr>
      in case llm_call e st None (summarize_prompt e g) of
           Inl x \<Rightarrow> (Inl x, st1)
         | Inr s \<Rightarrow> summarize_groups e st1 gs (summarized_contents @ [s]))"

definition summarize_messages :: "env \<Rightarrow> state \<Rightarrow> (exn + unit) \<times> state" where
  "summarize_messages e st =
     (case summarize_groups e st (messages_groups (messages st)) [] of
        (Inl x, st1) \<Rightarrow> (Inl x, st1)
      | (Inr summarized_contents, st1) \<Rightarrow>
          (Inr (),
           st1\<lparr>messages :=
                 [format_msg (summary (i18n e) (join '' '' summarized_contents)) ''user'']\<rparr>))"

definition handle_context_length :: "env \<Rightarrow> state \<Rightarrow> (exn + unit) \<times> state" where
  "handle_context_length e st =
     (if respect_context_window e
      then summarize_messages e
             (log ''debug''
                ''Context length exceeded. Summarizing content to fit the model context window.''
                st)
      else (Inl (SystemExit
                   ''Context length exceeded and user opted not to summarize. Consider using smaller text or RAG tools from crewai_tools.''),
            log ''debug''
              ''Context length exceeded. Consider using smaller text or RAG tools from crewai_tools.''
              st))"

section \<open>The execution loop\<close>

text \<open>
  The branch of the loop for an \<^verbatim>\<open>AgentAction\<close>, first half: the dispatch, the
  observation appended to the action's text, and the step callback, for which alone the
  tool result is stored in the action.
\<close>

definition observe_action :: "env \<Rightarrow> state \<Rightarrow> agent_action \<Rightarrow> agent_action \<times> state" where
  "observe_action e st a =
     (case use_tool e st a of (action_result, st1) \<Rightarrow>
        let a1 = a\<lparr>action_text := action_text a @ [CHR 0x0A] @ ''Observation: '' @ action_result\<rparr>
        in if step_callback e
           then (let a2 = a1\<lparr>result := Some action_result\<rparr>
                 in (a2, st1\<lparr>trace := trace st1 @ [StepCallback a2]\<rparr>))
           else (a1, st1))"

text \<open>
  Second half: the forced-answer policy and the assistant message. \<open>Inl\<close> is the
  \<^verbatim>\<open>AgentFinish\<close> that the loop returns at once; \<open>Inr\<close> is the action as the loop
  leaves it.
\<close>

definition invoke_loop_action ::
  "env \<Rightarrow> state \<Rightarrow> agent_action \<Rightarrow> (agent_finish + agent_action) \<times> state" where
  "invoke_loop_action e st a =
     (case observe_action e st a of (a2, st2) \<Rightarrow>
        let st3 = st2\<lparr>trace := trace st2 @ [ForceAnswerChecked]\<rparr>
        in if should_force_answer e st2
           then (if have_forced_answer st3
                 then (Inl \<lparr>finish_output = force_final_answer_error (i18n e) (action_text a2),
                            finish_text = action_text a2\<rparr>, st3)
                 else (let a3 = a2\<lparr>action_text :=
                                      action_text a2 @ [CHR 0x0A] @ force_final_answer (i18n e)\<rparr>
                       in (Inr a3,
                           st3\<lparr>have_forced_answer := True,
                               messages := messages st3 @ [format_msg (action_text a3) ''assistant'']\<rparr>)))
           else (Inr a2,
                 st3\<lparr>messages := messages st3 @ [format_msg (action_text a2) ''assistant'']\<rparr>))"

text \<open>
  Without stop words the answer is parsed once ahead of time; when that fails with the
  final-answer-and-action error the answer is cut at the first \<^verbatim>\<open>Observation:\<close>.
\<close>

definition truncate_answer :: "env \<Rightarrow> string \<Rightarrow> string" where
  "truncate_answer e answer =
     (if use_stop_words e then answer
      else case format_answer e answer of
             Inl err \<Rightarrow>
               if contains err (final_answer_and_parsable_action_error_message e)
               then strip (split_first ''Observation:'' answer)
               else answer
           | Inr _ \<Rightarrow> answer)"

definition rpm_gate :: "env \<Rightarrow> state \<Rightarrow> bool \<times> state" where
  "rpm_gate e st =
     (case request_within_rpm_limit e of
        None \<Rightarrow> (True, st)
      | Some f \<Rightarrow> (f st, st\<lparr>trace := trace st @ [RpmLimitChecked]\<rparr>))"

text \<open>
  One turn of the loop once the gate is open: the model call, the parse and the action
  branch. The turn gives the next value of \<^verbatim>\<open>formatted_answer\<close>, or returns a finish
  from inside the loop, or raises.
\<close>

datatype turn = Next "answer option" | Return agent_finish | Raise exn

definition loop_turn :: "env \<Rightarrow> state \<Rightarrow> turn \<times> state" where
  "loop_turn e st =
     (let stop_arg = (if use_stop_words e then Some (stop e) else None);
          st1 = st\<lparr>trace := trace st @ [LLMCalled stop_arg (messages st)]\<rparr>;
          st2 = st1\<lparr>iterations := iterations st1 + 1\<rparr>
      in (case llm_call e st stop_arg (messages st) of
            Inl x \<Rightarrow> (Raise x, st1)
          | Inr answer \<Rightarrow>
              (case format_answer e (truncate_answer e answer) of
                 Inl err \<Rightarrow> (Raise (OutputParserException err), st2)
               | Inr (AgentFinish f) \<Rightarrow> (Next (Some (AgentFinish f)), st2)
               | Inr (AgentAction a) \<Rightarrow>
                   (case invoke_loop_action e st2 a of
                      (Inl f, st3) \<Rightarrow> (Return f, st3)
                    | (Inr a', st3) \<Rightarrow> (Next (Some (AgentAction a')), st3)))))"

fun is_finish :: "answer option \<Rightarrow> bool" where
  "is_finish (Some (AgentFinish f)) = True"
| "is_finish _ = False"

text \<open>
  The \<^verbatim>\<open>while\<close> loop inside the \<^verbatim>\<open>try\<close>, with fuel: \<open>None\<close> is a loop that has not
  ended within the fuel. It ends by giving the value to return, or by raising, and then
  it keeps the value \<^verbatim>\<open>formatted_answer\<close> had when the exception was raised.
\<close>

datatype try_result = Returned "answer option" | Raised exn "answer option"

fun while_loop :: "nat \<Rightarrow> env \<Rightarrow> state \<Rightarrow> answer option \<Rightarrow> (try_result \<times> state) option" where
  "while_loop 0 e st formatted_answer = None"
| "while_loop (Suc n) e st formatted_answer =
     (if is_finish formatted_answer then Some (Returned formatted_answer, st)
      else case rpm_gate e st of (ok, st1) \<Rightarrow>
        if ok
        then (case loop_turn e st1 of
                (Raise x, st2) \<Rightarrow> Some (Raised x formatted_answer, st2)
              | (Return f, st2) \<Rightarrow> Some (Returned (Some (AgentFinish f)), st2)
              | (Next formatted_answer', st2) \<Rightarrow> while_loop n e st2 formatted_answer')
        else while_loop n e st1 formatted_answer)"

text \<open>
  \<^verbatim>\<open>_invoke_loop\<close>: the loop and its two handlers. Each handler calls \<^verbatim>\<open>_invoke_loop\<close>
  again and drops what that call returns; the function then returns its own
  \<^verbatim>\<open>formatted_answer\<close>. An exception of the inner call, raised inside a handler, leaves
  the function.
\<close>

fun invoke_loop ::
  "nat \<Rightarrow> env \<Rightarrow> state \<Rightarrow> answer option \<Rightarrow> ((exn + answer option) \<times> state) option" where
  "invoke_loop 0 e st formatted_answer = None"
| "invoke_loop (Suc n) e st formatted_answer =
     (case while_loop n e st formatted_answer of
        None \<Rightarrow> None
      | Some (Returned r, st1) \<Rightarrow> Some (Inr r, st1)
      | Some (Raised (OutputParserException err) fa, st1) \<Rightarrow>
          (case invoke_loop n e
                  (st1\<lparr>messages := messages st1 @ [\<lparr>role = ''assistant'', content = err\<rparr>]\<rparr>) fa of
             None \<Rightarrow> None
           | Some (Inl x, st2) \<Rightarrow> Some (Inl x, st2)
           | Some (Inr _, st2) \<Rightarrow> Some (Inr fa, st2))
      | Some (Raised (SystemExit m) fa, st1) \<Rightarrow> Some (Inl (SystemExit m), st1)
      | Some (Raised (Exception m) fa, st1) \<Rightarrow>
          (if is_context_limit_error e (str_exn (Exception m))
           then (case handle_context_length e st1 of
                   (Inl x, st2) \<Rightarrow> Some (Inl x, st2)
                 | (Inr _, st2) \<Rightarrow>
                     (case invoke_loop n e st2 fa of
                        None \<Rightarrow> None
                      | Some (Inl x, st3) \<Rightarrow> Some (Inl x, st3)
                      | Some (Inr _, st3) \<Rightarrow> Some (Inr fa, st3)))
           else Some (Inl (Exception m), st1)))"

section \<open>Training records\<close>

text \<open>
  The training-record store \<^verbatim>\<open>CrewTrainingHandler\<close> is a collaborator: \<open>training_load\<close>
  is what its \<^verbatim>\<open>load\<close> returns, and its \<^verbatim>\<open>save\<close> and \<^verbatim>\<open>append\<close> are recorded in the
  trace. A \<^verbatim>\<open>dict\<close> is true when it is not empty.
\<close>

text \<open>The first \<^verbatim>\<open>if\<close> of \<^verbatim>\<open>_handle_crew_training_output\<close>: a later revision round.\<close>

definition training_improved_output ::
  "env \<Rightarrow> state \<Rightarrow> agent_finish \<Rightarrow> (invoke_error + unit) \<times> state" where
  "training_improved_output e st res =
     (let st1 = st\<lparr>trace := trace st @ [TrainingLoaded]\<rparr>
      in if training_load e st \<noteq> [] \<and> \<not> ask_for_human_input st1
         then (let training_data = training_load e st1;
                   st2 = st1\<lparr>trace := trace st1 @ [TrainingLoaded]\<rparr>
               in case map_of training_data (agent_id e) of
                    None \<Rightarrow> (Inr (), st2)
                  | Some records \<Rightarrow>
                      if records = [] then (Inr (), st2)
                      else (case the_crew e of
                              None \<Rightarrow>
                                (Inr (), log ''error''
                                   ''Invalid crew or missing _train_iteration attribute.'' st2)
                            | Some c \<Rightarrow>
                                (case train_iteration c of
                                   None \<Rightarrow>
                                     (Inr (), log ''error''
                                        ''Invalid crew or missing _train_iteration attribute.'' st2)
                                 | Some it \<Rightarrow>
                                     (case map_of records it of
                                        None \<Rightarrow> (Inl (KeyError it), st2)
                                      | Some r \<Rightarrow>
                                          (Inr (),
                                           st2\<lparr>trace := trace st2 @
                                             [TrainingSaved
                                                (AList.update (agent_id e)
                                                   (AList.update it
                                                      (AList.update ''improved_output''
                                                         (finish_output res) r)
                                                      records)
                                                   training_data)]\<rparr>)))))
         else (Inr (), st1))"

text \<open>The second \<^verbatim>\<open>if\<close>: the first human-feedback round.\<close>

definition training_feedback ::
  "env \<Rightarrow> state \<Rightarrow> agent_finish \<Rightarrow> string option \<Rightarrow> state" where
  "training_feedback e st res human_feedback =
     (case human_feedback of
        None \<Rightarrow> st
      | Some fb \<Rightarrow>
          if ask_for_human_input st
          then (case the_crew e of
                  None \<Rightarrow>
                    log ''error'' ''Crew is None or does not have _train_iteration attribute.'' st
                | Some c \<Rightarrow>
                    (case train_iteration c of
                       None \<Rightarrow>
                         log ''error''
                           ''Crew is None or does not have _train_iteration attribute.'' st
                     | Some (PyInt i) \<Rightarrow>
                         st\<lparr>trace := trace st @
                              [TrainingAppended (PyInt i) (agent_id e)
                                 [(''initial_output'', finish_output res),
                                  (''human_feedback'', fb),
                                  (''agent'', agent_id e),
                                  (''agent_role'', agent_role e)]]\<rparr>
                     | Some _ \<Rightarrow>
                         log ''error'' ''Invalid train iteration type. Expected int.'' st))
          else st)"

definition handle_crew_training_output ::
  "env \<Rightarrow> state \<Rightarrow> agent_finish \<Rightarrow> string option \<Rightarrow> (invoke_error + unit) \<times> state" where
  "handle_crew_training_output e st res human_feedback =
     (case training_improved_output e st res of
        (Inl x, st1) \<Rightarrow> (Inl x, st1)
      | (Inr _, st1) \<Rightarrow> (Inr (), training_feedback e st1 res human_feedback))"

section \<open>The entry point\<close>

definition format_prompt :: "string \<Rightarrow> (string \<rightharpoonup> string) \<Rightarrow> invoke_error + string" where
  "format_prompt p inputs =
     (case inputs ''input'' of
        None \<Rightarrow> Inl (KeyError (PyStr ''input''))
      | Some v1 \<Rightarrow>
          (case inputs ''tool_names'' of
             None \<Rightarrow> Inl (KeyError (PyStr ''tool_names''))
           | Some v2 \<Rightarrow>
               (case inputs ''tools'' of
                  None \<Rightarrow> Inl (KeyError (PyStr ''tools''))
                | Some v3 \<Rightarrow>
                    Inr (replace ''{tools}'' v3
                           (replace ''{tool_names}'' v2 (replace ''{input}'' v1 p))))))"

text \<open>\<^verbatim>\<open>prompt.get(k, "")\<close>.\<close>

definition prompt_get :: "env \<Rightarrow> string \<Rightarrow> string" where
  "prompt_get e k = (case prompt e k of None \<Rightarrow> [] | Some v \<Rightarrow> v)"

text \<open>The first lines of \<^verbatim>\<open>invoke\<close>: the prompt messages are appended to the conversation.\<close>

definition seed_messages :: "env \<Rightarrow> state \<Rightarrow> (string \<rightharpoonup> string) \<Rightarrow> invoke_error + state" where
  "seed_messages e st inputs =
     (if prompt e ''system'' \<noteq> None
      then (case format_prompt (prompt_get e ''system'') inputs of
              Inl x \<Rightarrow> Inl x
            | Inr system_prompt \<Rightarrow>
                (case format_prompt (prompt_get e ''user'') inputs of
                   Inl x \<Rightarrow> Inl x
                 | Inr user_prompt \<Rightarrow>
                     Inr (st\<lparr>messages := (messages st @ [format_msg system_prompt ''system''])
                                          @ [format_msg user_prompt ''user'']\<rparr>)))
      else (case format_prompt (prompt_get e ''prompt'') inputs of
              Inl x \<Rightarrow> Inl x
            | Inr user_prompt \<Rightarrow>
                Inr (st\<lparr>messages := messages st @ [format_msg user_prompt ''user'']\<rparr>)))"

text \<open>\<^verbatim>\<open>formatted_answer.output\<close>: only an \<^verbatim>\<open>AgentFinish\<close> has the attribute.\<close>

fun the_finish :: "answer option \<Rightarrow> invoke_error + agent_finish" where
  "the_finish (Some (AgentFinish f)) = Inr f"
| "the_finish _ = Inl (AttributeError ''output'')"

text \<open>
  \<^verbatim>\<open>invoke\<close>, with the fuel given to each run of the loop. The result is the
  \<^verbatim>\<open>"output"\<close> entry of the dictionary it returns.
\<close>

definition invoke ::
  "nat \<Rightarrow> env \<Rightarrow> state \<Rightarrow> (string \<rightharpoonup> string) \<Rightarrow> ((invoke_error + string) \<times> state) option" where
  "invoke n e st inputs =
     (case seed_messages e st inputs of
        Inl x \<Rightarrow> Some (Inl x, st)
      | Inr st1 \<Rightarrow>
          (let st2 = st1\<lparr>ask_for_human_input :=
                          (case inputs ''ask_for_human_input'' of None \<Rightarrow> False | Some v \<Rightarrow> v \<noteq> [])\<rparr>
           in case invoke_loop n e st2 None of
                None \<Rightarrow> None
              | Some (Inl x, st3) \<Rightarrow> Some (Inl (LoopError x), st3)
              | Some (Inr formatted_answer, st3) \<Rightarrow>
                  if ask_for_human_input st3
                  then (case the_finish formatted_answer of
                          Inl x \<Rightarrow> Some (Inl x, st3)
                        | Inr f \<Rightarrow>
                            (let human_feedback = ask_human_input e st3 (finish_output f);
                                 st4 = st3\<lparr>trace := trace st3 @ [HumanInputAsked (finish_output f)]\<rparr>
                             in case (if (case the_crew e of None \<Rightarrow> False | Some c \<Rightarrow> train c)
                                      then handle_crew_training_output e st4 f (Some human_feedback)
                                      else (Inr (), st4)) of
                                  (Inl x, st5) \<Rightarrow> Some (Inl x, st5)
                                | (Inr _, st5) \<Rightarrow>
                                    (case invoke_loop n e
                                            (st5\<lparr>ask_for_human_input := False,
                                                 messages := messages st5 @
                                                   [format_msg (''Feedback: '' @ human_feedback) ''user'']\<rparr>)
                                            None of
                                       None \<Rightarrow> None
                                     | Some (Inl x, st6) \<Rightarrow> Some (Inl (LoopError x), st6)
                                     | Some (Inr formatted_answer2, st6) \<Rightarrow>
                                         (case the_finish formatted_answer2 of
                                            Inl x \<Rightarrow> Some (Inl x, st6)
                                          | Inr f2 \<Rightarrow> Some (Inr (finish_output f2), st6)))))
                  else (case the_finish formatted_answer of
                          Inl x \<Rightarrow> Some (Inl x, st3)
                        | Inr f \<Rightarrow> Some (Inr (finish_output f), st3))))"

section \<open>Example configuration\<close>

text \<open>
  A small configuration on which the definitions can be run: an English catalogue, a
  parser that knows the two shapes \<^verbatim>\<open>Final Answer: ...\<close> and \<^verbatim>\<open>Action: ...\<close>, one
  registered tool, and the executor's state as its constructor leaves it.
\<close>

definition en :: i18n_catalogue where
  "en = \<lparr>force_final_answer_error = (\<lambda>t. ''You cannot keep going, this was the best you could do: '' @ t),
         force_final_answer = ''Now it is time you MUST give your absolute best final answer.'',
         wrong_tool_name =
           (\<lambda>t ts. ''You tried to use the tool '' @ t
                    @ '', but it does not exist. You must use one of the following tools: '' @ ts),
         summarizer_system_message = ''You are a helpful assistant that summarizes text.'',
         sumamrize_instruction = (\<lambda>g. ''Summarize the following text: '' @ g),
         summary = (\<lambda>s. ''This is a summary of our conversation so far: '' @ s)\<rparr>"

definition example_parse :: "string \<Rightarrow> string + answer" where
  "example_parse s =
     (if startswith s ''Final Answer: ''
      then Inr (AgentFinish \<lparr>finish_output = drop 14 s, finish_text = s\<rparr>)
      else if startswith s ''Action: ''
      then Inr (AgentAction \<lparr>tool = drop 8 s, tool_input = [], action_text = s, result = None\<rparr>)
      else Inl ''Invalid Format: I missed the Action or the Final Answer'')"

definition example_env :: env where
  "example_env =
     \<lparr>request_within_rpm_limit = None,
      llm_call = (\<lambda>st stop_arg ms. Inr ''Final Answer: 4''),
      stop = [[CHR 0x0A] @ ''Observation:''],
      use_stop_words = True,
      parse = example_parse,
      final_answer_and_parsable_action_error_message = ''I did it wrong. Tried to both perform Action and give a Final Answer at the same time'',
      tools = [''Calculator''],
      tool_usage_parse = (\<lambda>st t. ToolCalling (drop 8 t) []),
      tool_usage_use = (\<lambda>st c t. ''4''),
      step_callback = False,
      should_force_answer = (\<lambda>st. False),
      respect_context_window = True,
      is_context_limit_error = (\<lambda>m. contains m ''maximum context length''),
      i18n = en,
      prompt = [''prompt'' \<mapsto> ''Question: {input}''],
      the_crew = None,
      agent_id = ''agent-1'',
      agent_role = ''Researcher'',
      ask_human_input = (\<lambda>st out. ''Looks good''),
      training_load = (\<lambda>st. [])\<rparr>"

definition init :: state where
  "init = \<lparr>messages = [], iterations = 0, have_forced_answer = False,
           ask_for_human_input = False, trace = []\<rparr>"


definition retry_env :: env where
  "retry_env =
     example_env\<lparr>llm_call := (\<lambda>st stop_arg ms.
                    if iterations st = 0 then Inr ''I am thinking'' else Inr ''Final Answer: 4'')\<rparr>"

definition overflow_env :: env where
  "overflow_env =
     example_env\<lparr>llm_call := (\<lambda>st stop_arg ms.
                    Inl (Exception ''This model has a maximum context length of 8192 tokens'')),
                 respect_context_window := False\<rparr>"

text \<open>
  Two more: a model with a context of 200 characters, in an executor that summarizes;
  and a crew in its training iteration 1 whose store holds a record of this agent for
  iteration 0 only.
\<close>

definition limited_env :: env where
  "limited_env =
     example_env\<lparr>llm_call := (\<lambda>st stop_arg ms.
                    if 200 < length (concat (map content ms))
                    then Inl (Exception ''This model has a maximum context length of 200 characters'')
                    else Inr ''Final Answer: 4'')\<rparr>"

definition training_env :: env where
  "training_env =
     example_env\<lparr>the_crew := Some \<lparr>train = True, train_iteration = Some (PyInt 1)\<rparr>,
                 training_load := (\<lambda>st.
                    [(''agent-1'',
                      [(PyInt 0, [(''initial_output'', ''5''),
                                  (''human_feedback'', ''Check the sum''),
                                  (''agent'', ''agent-1''),
                                  (''agent_role'', ''Researcher'')])])])\<rparr>"

section \<open>Chunking and summarization\<close>

lemma ceil_step:
  fixes i n k :: nat
  assumes "0 < k" "i < n"
  shows "Suc ((n - (i + k) + k - 1) div k) = (n - i + k - 1) div k"
proof (cases "i + k \<le> n")
  case True
  have e1: "n - (i + k) + k - 1 = n - i - 1" using True by simp
  have e2: "n - i + k - 1 = (n - i - 1) + k" using assms by simp
  have "((n - i - 1) + k) div k = Suc ((n - i - 1) div k)"
    using assms(1) by (simp add: div_add_self2)
  thus ?thesis unfolding e1 e2 by simp
next
  case False
  hence a: "n - (i + k) = 0" by simp
  have b: "(k - 1) div k = 0" using assms by simp
  have "k \<le> n - i + k - 1" using assms by simp
  then obtain d where d: "n - i + k - 1 = k + d" using le_Suc_ex by blast
  have "d < k" using d False assms by simp
  hence "(k + d) div k = 1" using assms(1) by (simp add: div_add_self1)
  thus ?thesis using a b d by simp
qed

lemma length_range_step:
  "0 < k \<Longrightarrow> length (range_step i n k) = (n - i + k - 1) div k"
proof (induction i n k rule: range_step.induct)
  case (1 i stop step)
  show ?case
  proof (cases "stop \<le> i")
    case True
    with 1(2) show ?thesis by (simp add: range_step.simps)
  next
    case False
    hence "length (range_step i stop step) = Suc ((stop - (i + step) + step - 1) div step)"
      using 1 by (subst range_step.simps) simp
    also have "\<dots> = (stop - i + step - 1) div step"
      using ceil_step[of step i stop] False 1(2) by simp
    finally show ?thesis .
  qed
qed


lemma concat_slices:
  "0 < k \<Longrightarrow> concat (map (\<lambda>j. slice s j (j + k)) (range_step i (length s) k)) = drop i s"
proof (induction i "length s" k rule: range_step.induct)
  case (1 i step)
  show ?case
  proof (cases "length s \<le> i")
    case True
    thus ?thesis by (simp add: range_step.simps)
  next
    case False
    have "concat (map (\<lambda>j. slice s j (j + step)) (range_step i (length s) step))
          = slice s i (i + step) @ drop (i + step) s"
      using 1 False by (subst range_step.simps) simp
    also have "\<dots> = take step (drop i s) @ drop step (drop i s)"
      by (simp add: slice_def add.commute)
    also have "\<dots> = drop i s"
      by (rule append_take_drop_id)
    finally show ?thesis .
  qed
qed

lemma slices_bounds:
  "0 < k \<Longrightarrow> c \<in> set (map (\<lambda>j. slice s j (j + k)) (range_step i (length s) k))
     \<Longrightarrow> 0 < length c \<and> length c \<le> k"
proof (induction i "length s" k rule: range_step.induct)
  case (1 i step)
  show ?case
  proof (cases "length s \<le> i")
    case True
    with 1(3) show ?thesis by (simp add: range_step.simps)
  next
    case False
    from 1(3) have "c = slice s i (i + step)
        \<or> c \<in> set (map (\<lambda>j. slice s j (j + step)) (range_step (i + step) (length s) step))"
      using False 1(2) by (subst (asm) range_step.simps) simp
    thus ?thesis
    proof
      assume "c = slice s i (i + step)"
      thus ?thesis using False 1(2) by (simp add: slice_def)
    next
      assume "c \<in> set (map (\<lambda>j. slice s j (j + step)) (range_step (i + step) (length s) step))"
      thus ?thesis using 1(1)[OF _ 1(2)] False 1(2) by simp
    qed
  qed
qed

lemma range_step_nth:
  "0 < k \<Longrightarrow> j < length (range_step i n k) \<Longrightarrow> range_step i n k ! j = i + j * k"
proof (induction i n k arbitrary: j rule: range_step.induct)
  case (1 i stop step)
  show ?case
  proof (cases "stop \<le> i")
    case True
    with 1(3) show ?thesis by (simp add: range_step.simps)
  next
    case False
    hence eq: "range_step i stop step = i # range_step (i + step) stop step"
      using 1(2) by (subst range_step.simps) simp
    show ?thesis
    proof (cases j)
      case 0
      thus ?thesis by (simp add: eq)
    next
      case (Suc j')
      hence "j' < length (range_step (i + step) stop step)" using 1(3) eq by simp
      hence "range_step (i + step) stop step ! j' = i + step + j' * step"
        using 1(1)[of j'] False 1(2) by simp
      thus ?thesis using Suc by (simp add: eq)
    qed
  qed
qed

lemma messages_groups_Nil: "messages_groups [] = []"
  by (simp add: messages_groups_def)

lemma messages_groups_Cons:
  "messages_groups (m # ms) = messages_groups [m] @ messages_groups ms"
  by (simp add: messages_groups_def)

lemma messages_groups_single:
  "messages_groups [m] =
     map (\<lambda>i. slice (content m) i (i + 5000)) (range_step 0 (length (content m)) 5000)"
  by (simp add: messages_groups_def)

lemma length_messages_groups_single:
  "length (messages_groups [m]) = (length (content m) + 4999) div 5000"
  by (simp add: messages_groups_single length_range_step)

lemma length_messages_groups:
  "length (messages_groups ms) = (\<Sum>m\<leftarrow>ms. (length (content m) + 4999) div 5000)"
proof (induction ms)
  case Nil
  show ?case by (simp add: messages_groups_Nil)
next
  case (Cons m ms)
  have "length (messages_groups (m # ms))
        = length (messages_groups [m]) + length (messages_groups ms)"
    by (subst messages_groups_Cons) simp
  thus ?case using Cons by (simp add: length_messages_groups_single)
qed

lemma summarize_groups_calls:
  "summarize_groups e st gs acc = (Inr ss, st') \<Longrightarrow>
     trace st' = trace st @ map (\<lambda>g. LLMCalled None (summarize_prompt e g)) gs
     \<and> messages st' = messages st \<and> length ss = length acc + length gs
     \<and> iterations st' = iterations st \<and> have_forced_answer st' = have_forced_answer st
     \<and> ask_for_human_input st' = ask_for_human_input st"
proof (induction gs arbitrary: st acc)
  case Nil
  thus ?case by simp
next
  case (Cons g gs)
  let ?st1 = "st\<lparr>trace := trace st @ [LLMCalled None (summarize_prompt e g)]\<rparr>"
  from Cons.prems obtain s where s: "llm_call e st None (summarize_prompt e g) = Inr s"
    and rest: "summarize_groups e ?st1 gs (acc @ [s]) = (Inr ss, st')"
    by (auto simp: Let_def split: sum.splits)
  from Cons.IH[OF rest] show ?case by simp
qed


lemma summarize_messages_calls:
  assumes "summarize_messages e st = (Inr u, st')"
  shows "trace st' = trace st @ map (\<lambda>g. LLMCalled None (summarize_prompt e g))
                                    (messages_groups (messages st))"
    and "\<exists>s. messages st' = [format_msg (summary (i18n e) s) ''user'']"
proof -
  from assms obtain ss st1 where
    g: "summarize_groups e st (messages_groups (messages st)) [] = (Inr ss, st1)"
    and st': "st' = st1\<lparr>messages := [format_msg (summary (i18n e) (join '' '' ss)) ''user'']\<rparr>"
    by (auto simp: summarize_messages_def split: prod.splits sum.splits)
  from summarize_groups_calls[OF g] st'
  show "trace st' = trace st @ map (\<lambda>g. LLMCalled None (summarize_prompt e g))
                                    (messages_groups (messages st))"
    by simp
  from st' show "\<exists>s. messages st' = [format_msg (summary (i18n e) s) ''user'']"
    by auto
qed

text \<open>
  C10. The chunking step of \<^verbatim>\<open>_summarize_messages\<close> is a lossless partition of each
  message: the chunks of a conversation are the chunks of its messages, in message order;
  the chunks of one message are consecutive slices of 5000 characters, none empty and
  none longer than 5000, whose concatenation is the content of the message; a message
  has \<open>ceil (length / 5000)\<close> chunks, a message with empty content has none, and when
  summarization returns, the model has been called exactly once for each chunk, in
  order, so that the number of calls is the sum of these numbers over the messages.
\<close>

theorem chunking_lossless_partition:
  "messages_groups ms = concat (map (\<lambda>m. messages_groups [m]) ms)
   \<and> concat (messages_groups [m]) = content m
   \<and> (\<forall>c \<in> set (messages_groups [m]). 0 < length c \<and> length c \<le> 5000)
   \<and> (\<forall>j < length (messages_groups [m]).
         messages_groups [m] ! j = slice (content m) (j * 5000) (j * 5000 + 5000))
   \<and> length (messages_groups [m]) = (length (content m) + 4999) div 5000
   \<and> length (messages_groups ms) = (\<Sum>m\<leftarrow>ms. (length (content m) + 4999) div 5000)
   \<and> messages_groups [m\<lparr>content := []\<rparr>] = []
   \<and> (summarize_messages e st = (Inr u, st') \<longrightarrow>
        trace st' = trace st @ map (\<lambda>g. LLMCalled None (summarize_prompt e g))
                                   (messages_groups (messages st))
        \<and> length (trace st') =
            length (trace st) + (\<Sum>m\<leftarrow>messages st. (length (content m) + 4999) div 5000))"
proof -
  have a: "messages_groups ms = concat (map (\<lambda>m. messages_groups [m]) ms)"
    by (simp add: messages_groups_def)
  have b: "concat (messages_groups [m]) = content m"
    using concat_slices[of 5000 "content m" 0] by (simp add: messages_groups_single)
  have c: "\<forall>c \<in> set (messages_groups [m]). 0 < length c \<and> length c \<le> 5000"
    using slices_bounds[of 5000 _ "content m" 0] by (simp add: messages_groups_single)
  have d: "\<forall>j < length (messages_groups [m]).
         messages_groups [m] ! j = slice (content m) (j * 5000) (j * 5000 + 5000)"
    using range_step_nth[of 5000 _ 0 "length (content m)"]
    by (simp add: messages_groups_single)
  have f: "messages_groups [m\<lparr>content := []\<rparr>] = []"
    by (simp add: messages_groups_single range_step.simps)
  have g: "summarize_messages e st = (Inr u, st') \<longrightarrow>
        trace st' = trace st @ map (\<lambda>g. LLMCalled None (summarize_prompt e g))
                                   (messages_groups (messages st))
        \<and> length (trace st') =
            length (trace st) + (\<Sum>m\<leftarrow>messages st. (length (content m) + 4999) div 5000)"
    using summarize_messages_calls(1)[of e st u st']
    by (simp add: length_messages_groups)
  from a b c d length_messages_groups_single length_messages_groups f g
  show ?thesis by blast
qed

theorem chunking_lossless_partition_witness:
  "messages_groups [\<lparr>role = ''user'', content = ''hello''\<rparr>] = [''hello'']
   \<and> ''hello'' \<in> set (messages_groups [\<lparr>role = ''user'', content = ''hello''\<rparr>])
   \<and> 0 < length (messages_groups [\<lparr>role = ''user'', content = ''hello''\<rparr>])
   \<and> summarize_messages example_env (init\<lparr>messages := [\<lparr>role = ''user'', content = ''hello''\<rparr>]\<rparr>)
       = (Inr (),
          init\<lparr>messages := [\<lparr>role = ''user'',
                               content = ''This is a summary of our conversation so far: Final Answer: 4''\<rparr>],
               trace := [LLMCalled None (summarize_prompt example_env ''hello'')]\<rparr>)
   \<and> concat (messages_groups [\<lparr>role = ''user'', content = ''hello''\<rparr>]) = ''hello''
   \<and> messages_groups [\<lparr>role = ''user'', content = ''hello''\<rparr>] ! 0 = slice ''hello'' 0 5000"
proof -
  have e: "messages_groups [\<lparr>role = ''user'', content = ''hello''\<rparr>] = [''hello'']"
    by (simp add: messages_groups_def range_step.simps slice_def)
  have s: "summarize_messages example_env (init\<lparr>messages := [\<lparr>role = ''user'', content = ''hello''\<rparr>]\<rparr>)
       = (Inr (),
          init\<lparr>messages := [\<lparr>role = ''user'',
                               content = ''This is a summary of our conversation so far: Final Answer: 4''\<rparr>],
               trace := [LLMCalled None (summarize_prompt example_env ''hello'')]\<rparr>)"
    by (simp add: summarize_messages_def e init_def example_env_def en_def
        summarize_prompt_def format_msg_def)
  show ?thesis
    using chunking_lossless_partition[of "[\<lparr>role = ''user'', content = ''hello''\<rparr>]"
        "\<lparr>role = ''user'', content = ''hello''\<rparr>" example_env
        "init\<lparr>messages := [\<lparr>role = ''user'', content = ''hello''\<rparr>]\<rparr>" "()"
        "init\<lparr>messages := [\<lparr>role = ''user'',
                               content = ''This is a summary of our conversation so far: Final Answer: 4''\<rparr>],
               trace := [LLMCalled None (summarize_prompt example_env ''hello'')]\<rparr>"]
      e s by (simp add: slice_def)
qed

lemma ceil_sum_le:
  "(length (concat (map content ms)) + 4999) div 5000
     \<le> (\<Sum>m\<leftarrow>ms. (length (content m) + 4999) div 5000)"
proof (induction ms)
  case Nil
  show ?case by simp
next
  case (Cons m ms)
  have "(length (content m) + length (concat (map content ms)) + 4999) div 5000
        \<le> (length (content m) + 4999) div 5000
          + (length (concat (map content ms)) + 4999) div 5000"
    by arith
  with Cons show ?case by simp
qed

text \<open>
  C2. Context-overflow recovery with \<^verbatim>\<open>respect_context_window\<close> set, when every
  summarization call returns: each message is chunked on its own, so the number of
  chunks summarized, one model call for each, is the sum over the messages of
  \<open>ceil (length / 5000)\<close>. This is at least \<open>ceil (L / 5000)\<close> for the length \<open>L\<close> of the
  concatenated contents, and equal to it when the conversation has one message.
  Afterwards the conversation consists of exactly one message. (For two messages of
  6000 and 3000 characters three calls are issued, not two.)
\<close>

theorem summarization_coverage:
  assumes "respect_context_window e"
    and "handle_context_length e st = (Inr u, st')"
  shows "trace st' =
           trace st
           @ [Logged ''debug''
                ''Context length exceeded. Summarizing content to fit the model context window.'']
           @ map (\<lambda>g. LLMCalled None (summarize_prompt e g)) (messages_groups (messages st))
         \<and> length (messages_groups (messages st))
             = (\<Sum>m\<leftarrow>messages st. (length (content m) + 4999) div 5000)
         \<and> (length (concat (map content (messages st))) + 4999) div 5000
             \<le> length (messages_groups (messages st))
         \<and> (length (messages st) = 1 \<longrightarrow>
               length (messages_groups (messages st))
                 = (length (concat (map content (messages st))) + 4999) div 5000)
         \<and> length (messages st') = 1"
proof -
  let ?st0 = "log ''debug''
                ''Context length exceeded. Summarizing content to fit the model context window.'' st"
  from assms have s: "summarize_messages e ?st0 = (Inr u, st')"
    by (simp add: handle_context_length_def)
  have m0: "messages ?st0 = messages st" by (simp add: log_def)
  have t: "trace st' = trace st
           @ [Logged ''debug''
                ''Context length exceeded. Summarizing content to fit the model context window.'']
           @ map (\<lambda>g. LLMCalled None (summarize_prompt e g)) (messages_groups (messages st))"
    using summarize_messages_calls(1)[OF s] by (simp add: log_def)
  have one: "length (messages st') = 1"
    using summarize_messages_calls(2)[OF s] by auto
  have single: "length (messages st) = 1 \<longrightarrow>
               length (messages_groups (messages st))
                 = (length (concat (map content (messages st))) + 4999) div 5000"
  proof
    assume "length (messages st) = 1"
    then obtain m where "messages st = [m]" by (cases "messages st") auto
    thus "length (messages_groups (messages st))
                 = (length (concat (map content (messages st))) + 4999) div 5000"
      by (simp add: length_messages_groups_single)
  qed
  from t one single ceil_sum_le[of "messages st"] length_messages_groups[of "messages st"]
  show ?thesis by simp
qed

theorem summarization_coverage_witness:
  "respect_context_window example_env
   \<and> handle_context_length example_env (init\<lparr>messages := [\<lparr>role = ''user'', content = ''hello''\<rparr>]\<rparr>)
       = (Inr (),
          init\<lparr>messages := [\<lparr>role = ''user'',
                               content = ''This is a summary of our conversation so far: Final Answer: 4''\<rparr>],
               trace := [Logged ''debug''
                           ''Context length exceeded. Summarizing content to fit the model context window.'',
                         LLMCalled None (summarize_prompt example_env ''hello'')]\<rparr>)
   \<and> length (messages_groups [\<lparr>role = ''user'', content = ''hello''\<rparr>]) = 1"
proof -
  have r: "respect_context_window example_env" by (simp add: example_env_def)
  have e: "messages_groups [\<lparr>role = ''user'', content = ''hello''\<rparr>] = [''hello'']"
    by (simp add: messages_groups_def range_step.simps slice_def)
  have h: "handle_context_length example_env (init\<lparr>messages := [\<lparr>role = ''user'', content = ''hello''\<rparr>]\<rparr>)
       = (Inr (),
          init\<lparr>messages := [\<lparr>role = ''user'',
                               content = ''This is a summary of our conversation so far: Final Answer: 4''\<rparr>],
               trace := [Logged ''debug''
                           ''Context length exceeded. Summarizing content to fit the model context window.'',
                         LLMCalled None (summarize_prompt example_env ''hello'')]\<rparr>)"
    by (simp add: handle_context_length_def log_def summarize_messages_def e init_def
        example_env_def en_def summarize_prompt_def format_msg_def)
  show ?thesis
    using summarization_coverage[OF r h] r h by simp
qed

theorem summarization_coverage_counterexample:
  "summarize_messages example_env
     (init\<lparr>messages := [\<lparr>role = ''user'', content = replicate 6000 CHR ''a''\<rparr>,
                         \<lparr>role = ''assistant'', content = replicate 3000 CHR ''b''\<rparr>]\<rparr>)
   = (Inr (),
      init\<lparr>messages := [format_msg (summary en ''Final Answer: 4 Final Answer: 4 Final Answer: 4'') ''user''],
           trace := [LLMCalled None (summarize_prompt example_env (replicate 5000 CHR ''a'')),
                     LLMCalled None (summarize_prompt example_env (replicate 1000 CHR ''a'')),
                     LLMCalled None (summarize_prompt example_env (replicate 3000 CHR ''b''))]\<rparr>)
   \<and> length (replicate 6000 CHR ''a'' @ replicate 3000 CHR ''b'') = 9000
   \<and> (9000 + 4999) div 5000 = (2 :: nat)"
proof -
  have g: "messages_groups [\<lparr>role = ''user'', content = replicate 6000 CHR ''a''\<rparr>,
                         \<lparr>role = ''assistant'', content = replicate 3000 CHR ''b''\<rparr>]
        = [replicate 5000 CHR ''a'', replicate 1000 CHR ''a'', replicate 3000 CHR ''b'']"
    by (simp add: messages_groups_def range_step.simps slice_def)
  show ?thesis
    by (simp add: summarize_messages_def g init_def example_env_def
        summarize_prompt_def)
qed

section \<open>Tool dispatch and the action branch\<close>

lemma set_dict_keys: "set (dict_keys ks) = set ks"
  by (induction ks) auto

lemma tool_name_matches_iff:
  "tool_name_matches e n \<longleftrightarrow>
     (\<exists>k \<in> set (tools e). strip (casefold n) = strip (casefold k)
                           \<or> replace ''_'' '' '' (casefold n) = strip (casefold k))"
  by (auto simp: tool_name_matches_def name_to_tool_map_def set_dict_keys)

text \<open>
  C4. When the tool-usage parser gives a tool call whose name matches no registered tool
  under either rule, \<^verbatim>\<open>_use_tool\<close> returns the wrong-tool-name message of the catalogue,
  formatted with the requested name and with the names of the tools, case-folded and
  joined by a comma and a space. The only call it has made is the parse of the action
  text: no tool is used. The result is a text, not an exception.
\<close>

theorem wrong_tool_name_is_text:
  assumes "tool_usage_parse e st (action_text a) = ToolCalling n args"
    and "strip (casefold n) \<notin> set (map (\<lambda>k. strip (casefold k)) (tools e))"
    and "replace ''_'' '' '' (casefold n) \<notin> set (map (\<lambda>k. strip (casefold k)) (tools e))"
  shows "use_tool e st a =
           (wrong_tool_name (i18n e) n (join '', '' (map casefold (tools e))),
            st\<lparr>trace := trace st @ [ToolUsageParsed (action_text a)]\<rparr>)"
proof -
  from assms(2,3) have "\<not> tool_name_matches e n"
    by (auto simp: tool_name_matches_iff)
  with assms(1) show ?thesis by (simp add: use_tool_def)
qed

theorem wrong_tool_name_is_text_witness:
  "tool_usage_parse example_env init ''Action: calc_tool'' = ToolCalling ''calc_tool'' []
   \<and> strip (casefold ''calc_tool'') \<notin> set (map (\<lambda>k. strip (casefold k)) (tools example_env))
   \<and> replace ''_'' '' '' (casefold ''calc_tool'')
        \<notin> set (map (\<lambda>k. strip (casefold k)) (tools example_env))
   \<and> use_tool example_env init
        \<lparr>tool = ''calc_tool'', tool_input = [], action_text = ''Action: calc_tool'', result = None\<rparr>
      = (''You tried to use the tool calc_tool, but it does not exist. You must use one of the following tools: calculator'',
         init\<lparr>trace := [ToolUsageParsed ''Action: calc_tool'']\<rparr>)"
proof -
  have p: "tool_usage_parse example_env init
             (action_text \<lparr>tool = ''calc_tool'', tool_input = [],
                           action_text = ''Action: calc_tool'', result = None\<rparr>)
           = ToolCalling ''calc_tool'' []"
    by (simp add: example_env_def)
  have a: "strip (casefold ''calc_tool'') \<notin> set (map (\<lambda>k. strip (casefold k)) (tools example_env))"
    by (simp add: example_env_def strip_def casefold_def casefold_char_def is_space_def)
  have b: "replace ''_'' '' '' (casefold ''calc_tool'')
        \<notin> set (map (\<lambda>k. strip (casefold k)) (tools example_env))"
    by (simp add: example_env_def strip_def casefold_def casefold_char_def is_space_def
        startswith_def)
  have t: "tools example_env = [''Calculator'']" "i18n example_env = en"
    by (simp_all add: example_env_def)
  show ?thesis
    using wrong_tool_name_is_text[OF p a b] p a b
    by (simp add: t en_def casefold_def casefold_char_def init_def)
qed



text \<open>
  C8. After the dispatch of an action returns, the loop appends a new line and
  \<^verbatim>\<open>Observation:\<close> with the tool result to the action's text. It stores the tool
  result in the action's \<^verbatim>\<open>result\<close> field when a step callback is configured, and leaves
  that field as parsed otherwise. The rest of the action branch changes neither the
  tool, the tool input nor the result of the action.
\<close>

theorem observation_appended:
  assumes "use_tool e st a = (r, st1)"
  shows "observe_action e st a =
           (a\<lparr>action_text := action_text a @ [CHR 0x0A] @ ''Observation: '' @ r,
              result := (if step_callback e then Some r else result a)\<rparr>,
            (if step_callback e
             then st1\<lparr>trace := trace st1 @
                    [StepCallback (a\<lparr>action_text := action_text a @ [CHR 0x0A] @ ''Observation: '' @ r,
                                     result := Some r\<rparr>)]\<rparr>
             else st1))
         \<and> (invoke_loop_action e st a = (Inr a3, st3) \<longrightarrow>
              tool a3 = tool a \<and> tool_input a3 = tool_input a
              \<and> result a3 = (if step_callback e then Some r else result a))"
proof -
  have o: "observe_action e st a =
           (a\<lparr>action_text := action_text a @ [CHR 0x0A] @ ''Observation: '' @ r,
              result := (if step_callback e then Some r else result a)\<rparr>,
            (if step_callback e
             then st1\<lparr>trace := trace st1 @
                    [StepCallback (a\<lparr>action_text := action_text a @ [CHR 0x0A] @ ''Observation: '' @ r,
                                     result := Some r\<rparr>)]\<rparr>
             else st1))"
    using assms by (simp add: observe_action_def Let_def)
  have "invoke_loop_action e st a = (Inr a3, st3) \<longrightarrow>
              tool a3 = tool a \<and> tool_input a3 = tool_input a
              \<and> result a3 = (if step_callback e then Some r else result a)"
    unfolding invoke_loop_action_def o by (auto simp: Let_def split: if_splits)
  with o show ?thesis by simp
qed

theorem observation_appended_witness:
  "use_tool (example_env\<lparr>step_callback := True\<rparr>) init
     \<lparr>tool = ''Calculator'', tool_input = [], action_text = ''Action: Calculator'', result = None\<rparr>
     = (''4'', init\<lparr>trace := [ToolUsageParsed ''Action: Calculator'',
                              ToolUsed (ToolCalling ''Calculator'' []) ''Action: Calculator'']\<rparr>)
   \<and> fst (observe_action (example_env\<lparr>step_callback := True\<rparr>) init
        \<lparr>tool = ''Calculator'', tool_input = [], action_text = ''Action: Calculator'', result = None\<rparr>)
     = \<lparr>tool = ''Calculator'', tool_input = [],
        action_text = ''Action: Calculator'' @ [CHR 0x0A] @ ''Observation: 4'', result = Some ''4''\<rparr>
   \<and> fst (invoke_loop_action (example_env\<lparr>step_callback := True\<rparr>) init
        \<lparr>tool = ''Calculator'', tool_input = [], action_text = ''Action: Calculator'', result = None\<rparr>)
     = Inr \<lparr>tool = ''Calculator'', tool_input = [],
        action_text = ''Action: Calculator'' @ [CHR 0x0A] @ ''Observation: 4'', result = Some ''4''\<rparr>"
proof -
  let ?e = "example_env\<lparr>step_callback := True\<rparr>"
  let ?a = "\<lparr>tool = ''Calculator'', tool_input = [], action_text = ''Action: Calculator'',
             result = None\<rparr>"
  have u: "use_tool ?e init ?a
     = (''4'', init\<lparr>trace := [ToolUsageParsed ''Action: Calculator'',
                              ToolUsed (ToolCalling ''Calculator'' []) ''Action: Calculator'']\<rparr>)"
    by (simp add: use_tool_def example_env_def init_def tool_name_matches_def
        name_to_tool_map_def strip_def casefold_def casefold_char_def is_space_def)
  have s: "step_callback ?e" "\<not> should_force_answer ?e st" for st
    by (simp_all add: example_env_def)
  have o: "fst (observe_action ?e init ?a)
     = \<lparr>tool = ''Calculator'', tool_input = [],
        action_text = ''Action: Calculator'' @ [CHR 0x0A] @ ''Observation: 4'', result = Some ''4''\<rparr>"
    using observation_appended[OF u] s by simp
  have "fst (invoke_loop_action ?e init ?a) = Inr (fst (observe_action ?e init ?a))"
    using s by (simp add: invoke_loop_action_def Let_def split: prod.splits)
  with o u show ?thesis by simp
qed

theorem observation_appended_counterexample:
  "use_tool example_env init
     \<lparr>tool = ''Calculator'', tool_input = [], action_text = ''Action: Calculator'', result = None\<rparr>
     = (''4'', init\<lparr>trace := [ToolUsageParsed ''Action: Calculator'',
                              ToolUsed (ToolCalling ''Calculator'' []) ''Action: Calculator'']\<rparr>)
   \<and> observe_action example_env init
        \<lparr>tool = ''Calculator'', tool_input = [], action_text = ''Action: Calculator'', result = None\<rparr>
     = (\<lparr>tool = ''Calculator'', tool_input = [],
         action_text = ''Action: Calculator'' @ [CHR 0x0A] @ ''Observation: 4'', result = None\<rparr>,
        init\<lparr>trace := [ToolUsageParsed ''Action: Calculator'',
                        ToolUsed (ToolCalling ''Calculator'' []) ''Action: Calculator'']\<rparr>)"
  by (simp add: observe_action_def use_tool_def example_env_def init_def tool_name_matches_def
      name_to_tool_map_def strip_def casefold_def casefold_char_def is_space_def)

section \<open>The loop: what every run preserves\<close>

lemma use_tool_frame:
  assumes "use_tool e st a = (r, st1)"
  shows "messages st1 = messages st" "have_forced_answer st1 = have_forced_answer st"
    "\<exists>evs. trace st1 = trace st @ evs \<and> (\<forall>l m. Logged l m \<notin> set evs)"
  using assms
  by (auto simp: use_tool_def Let_def split: tool_calling.splits if_splits)

lemma observe_action_frame:
  assumes "observe_action e st a = (a2, st2)"
  shows "messages st2 = messages st" "have_forced_answer st2 = have_forced_answer st"
    "\<exists>evs. trace st2 = trace st @ evs \<and> (\<forall>l m. Logged l m \<notin> set evs)"
proof -
  obtain r st1 where u: "use_tool e st a = (r, st1)" by (cases "use_tool e st a")
  from use_tool_frame(3)[OF u] obtain evs where
    evs: "trace st1 = trace st @ evs" "\<forall>l m. Logged l m \<notin> set evs" by blast
  from assms u have st2: "st2 = st1 \<or> (\<exists>c. st2 = st1\<lparr>trace := trace st1 @ [StepCallback c]\<rparr>)"
    by (auto simp: observe_action_def Let_def split: if_splits)
  from st2 use_tool_frame(1,2)[OF u]
  show "messages st2 = messages st" "have_forced_answer st2 = have_forced_answer st"
    by auto
  from st2 show "\<exists>evs. trace st2 = trace st @ evs \<and> (\<forall>l m. Logged l m \<notin> set evs)"
  proof
    assume "st2 = st1" with evs show ?thesis by blast
  next
    assume "\<exists>c. st2 = st1\<lparr>trace := trace st1 @ [StepCallback c]\<rparr>"
    then obtain c where "st2 = st1\<lparr>trace := trace st1 @ [StepCallback c]\<rparr>" ..
    hence "trace st2 = trace st @ (evs @ [StepCallback c])" using evs by simp
    moreover have "\<forall>l m. Logged l m \<notin> set (evs @ [StepCallback c])" using evs by simp
    ultimately show ?thesis by blast
  qed
qed

lemma invoke_loop_action_cases:
  assumes "observe_action e st a = (a2, st2)"
  shows "invoke_loop_action e st a =
           (if should_force_answer e st2
            then (if have_forced_answer st
                  then (Inl \<lparr>finish_output = force_final_answer_error (i18n e) (action_text a2),
                             finish_text = action_text a2\<rparr>,
                        st2\<lparr>trace := trace st2 @ [ForceAnswerChecked]\<rparr>)
                  else (Inr (a2\<lparr>action_text :=
                                   action_text a2 @ [CHR 0x0A] @ force_final_answer (i18n e)\<rparr>),
                        st2\<lparr>trace := trace st2 @ [ForceAnswerChecked],
                            have_forced_answer := True,
                            messages := messages st2 @
                              [format_msg (action_text a2 @ [CHR 0x0A] @ force_final_answer (i18n e))
                                 ''assistant'']\<rparr>))
            else (Inr a2,
                  st2\<lparr>trace := trace st2 @ [ForceAnswerChecked],
                      messages := messages st2 @ [format_msg (action_text a2) ''assistant'']\<rparr>))"
  using assms observe_action_frame(2)[OF assms]
  by (simp add: invoke_loop_action_def Let_def)

lemma invoke_loop_action_frame:
  assumes "invoke_loop_action e st a = (r, st')"
  shows "\<exists>ms. messages st' = messages st @ ms"
    "have_forced_answer st \<Longrightarrow> have_forced_answer st'"
    "\<exists>evs. trace st' = trace st @ evs \<and> (\<forall>l m. Logged l m \<notin> set evs)"
proof -
  obtain a2 st2 where o: "observe_action e st a = (a2, st2)" by (cases "observe_action e st a")
  from observe_action_frame(3)[OF o] obtain evs where
    evs: "trace st2 = trace st @ evs" "\<forall>l m. Logged l m \<notin> set evs" by blast
  note c = assms[unfolded invoke_loop_action_cases[OF o]]
  from c observe_action_frame(1)[OF o] show "\<exists>ms. messages st' = messages st @ ms"
    by (auto split: if_splits)
  from c observe_action_frame(2)[OF o]
  show "have_forced_answer st \<Longrightarrow> have_forced_answer st'"
    by (auto split: if_splits)
  from c have "trace st' = trace st @ (evs @ [ForceAnswerChecked])"
    using evs by (auto split: if_splits)
  moreover have "\<forall>l m. Logged l m \<notin> set (evs @ [ForceAnswerChecked])" using evs by simp
  ultimately show "\<exists>evs. trace st' = trace st @ evs \<and> (\<forall>l m. Logged l m \<notin> set evs)"
    by blast
qed

lemma rpm_gate_frame:
  assumes "rpm_gate e st = (ok, st1)"
  shows "messages st1 = messages st" "have_forced_answer st1 = have_forced_answer st"
    "\<exists>evs. trace st1 = trace st @ evs \<and> (\<forall>l m. Logged l m \<notin> set evs)"
  using assms by (auto simp: rpm_gate_def split: option.splits)

lemma loop_turn_frame:
  assumes "loop_turn e st = (t, st')"
  shows "\<exists>ms. messages st' = messages st @ ms"
    "have_forced_answer st \<Longrightarrow> have_forced_answer st'"
    "\<exists>evs. trace st' = trace st @ evs \<and> (\<forall>l m. Logged l m \<notin> set evs)"
proof -
  let ?sa = "if use_stop_words e then Some (stop e) else None"
  let ?st1 = "st\<lparr>trace := trace st @ [LLMCalled ?sa (messages st)]\<rparr>"
  let ?st2 = "?st1\<lparr>iterations := iterations ?st1 + 1\<rparr>"
  have "st' = ?st1 \<or> st' = ?st2 \<or> (\<exists>a r. invoke_loop_action e ?st2 a = (r, st'))"
    using assms
    by (auto simp: loop_turn_def Let_def split: sum.splits answer.splits prod.splits)
  moreover
  { assume "st' = ?st1 \<or> st' = ?st2"
    hence m: "messages st' = messages st @ []"
      and f: "have_forced_answer st' = have_forced_answer st"
      and t: "trace st' = trace st @ [LLMCalled ?sa (messages st)]" by auto
    have "\<forall>l m. Logged l m \<notin> set [LLMCalled ?sa (messages st)]" by simp
    with m f t have "(\<exists>ms. messages st' = messages st @ ms)
      \<and> (have_forced_answer st \<longrightarrow> have_forced_answer st')
      \<and> (\<exists>evs. trace st' = trace st @ evs \<and> (\<forall>l m. Logged l m \<notin> set evs))"
      by blast }
  moreover
  { assume "\<exists>a r. invoke_loop_action e ?st2 a = (r, st')"
    then obtain a r where i: "invoke_loop_action e ?st2 a = (r, st')" by blast
    from invoke_loop_action_frame(3)[OF i] obtain evs where
      evs: "trace st' = trace ?st2 @ evs" "\<forall>l m. Logged l m \<notin> set evs" by blast
    have "trace st' = trace st @ (LLMCalled ?sa (messages st) # evs)" using evs by simp
    moreover have "\<forall>l m. Logged l m \<notin> set (LLMCalled ?sa (messages st) # evs)"
      using evs by simp
    ultimately have "\<exists>evs. trace st' = trace st @ evs \<and> (\<forall>l m. Logged l m \<notin> set evs)"
      by blast
    with invoke_loop_action_frame(1,2)[OF i]
    have "(\<exists>ms. messages st' = messages st @ ms)
      \<and> (have_forced_answer st \<longrightarrow> have_forced_answer st')
      \<and> (\<exists>evs. trace st' = trace st @ evs \<and> (\<forall>l m. Logged l m \<notin> set evs))"
      by simp }
  ultimately have all: "(\<exists>ms. messages st' = messages st @ ms)
      \<and> (have_forced_answer st \<longrightarrow> have_forced_answer st')
      \<and> (\<exists>evs. trace st' = trace st @ evs \<and> (\<forall>l m. Logged l m \<notin> set evs))"
    by blast
  from all show "\<exists>ms. messages st' = messages st @ ms" by blast
  from all show "have_forced_answer st \<Longrightarrow> have_forced_answer st'" by blast
  from all show "\<exists>evs. trace st' = trace st @ evs \<and> (\<forall>l m. Logged l m \<notin> set evs)" by blast
qed


lemma frame_trans:
  assumes "(\<exists>ms. messages st1 = messages st @ ms)
      \<and> (have_forced_answer st \<longrightarrow> have_forced_answer st1)
      \<and> (\<exists>evs. trace st1 = trace st @ evs \<and> (\<forall>l m. Logged l m \<notin> set evs))"
    and "(\<exists>ms. messages st2 = messages st1 @ ms)
      \<and> (have_forced_answer st1 \<longrightarrow> have_forced_answer st2)
      \<and> (\<exists>evs. trace st2 = trace st1 @ evs \<and> (\<forall>l m. Logged l m \<notin> set evs))"
  shows "(\<exists>ms. messages st2 = messages st @ ms)
      \<and> (have_forced_answer st \<longrightarrow> have_forced_answer st2)
      \<and> (\<exists>evs. trace st2 = trace st @ evs \<and> (\<forall>l m. Logged l m \<notin> set evs))"
proof -
  from assms obtain ms1 ms2 where "messages st1 = messages st @ ms1"
    "messages st2 = messages st1 @ ms2" by blast
  hence m: "messages st2 = messages st @ (ms1 @ ms2)" by simp
  from assms obtain ev1 ev2 where ev: "trace st1 = trace st @ ev1"
    "\<forall>l m. Logged l m \<notin> set ev1" "trace st2 = trace st1 @ ev2"
    "\<forall>l m. Logged l m \<notin> set ev2" by blast
  hence t: "trace st2 = trace st @ (ev1 @ ev2)" by simp
  have n: "\<forall>l m. Logged l m \<notin> set (ev1 @ ev2)" using ev by simp
  from m t n assms show ?thesis by blast
qed

lemma while_loop_frame_all:
  "while_loop n e st fa = Some (r, st') \<Longrightarrow>
     (\<exists>ms. messages st' = messages st @ ms)
      \<and> (have_forced_answer st \<longrightarrow> have_forced_answer st')
      \<and> (\<exists>evs. trace st' = trace st @ evs \<and> (\<forall>l m. Logged l m \<notin> set evs))"
proof (induction n arbitrary: st fa)
  case 0
  thus ?case by simp
next
  case (Suc n)
  show ?case
  proof (cases "is_finish fa")
    case True
    with Suc.prems have "st' = st" by simp
    thus ?thesis by simp
  next
    case False
    obtain ok st1 where g: "rpm_gate e st = (ok, st1)" by (cases "rpm_gate e st")
    have f1: "(\<exists>ms. messages st1 = messages st @ ms)
      \<and> (have_forced_answer st \<longrightarrow> have_forced_answer st1)
      \<and> (\<exists>evs. trace st1 = trace st @ evs \<and> (\<forall>l m. Logged l m \<notin> set evs))"
      using rpm_gate_frame[OF g] by simp
    show ?thesis
    proof (cases ok)
      case False
      with Suc.prems \<open>\<not> is_finish fa\<close> g have "while_loop n e st1 fa = Some (r, st')" by simp
      from frame_trans[OF f1 Suc.IH[OF this]] show ?thesis .
    next
      case True
      obtain t st2 where l: "loop_turn e st1 = (t, st2)" by (cases "loop_turn e st1")
      have f2: "(\<exists>ms. messages st2 = messages st1 @ ms)
        \<and> (have_forced_answer st1 \<longrightarrow> have_forced_answer st2)
        \<and> (\<exists>evs. trace st2 = trace st1 @ evs \<and> (\<forall>l m. Logged l m \<notin> set evs))"
        using loop_turn_frame[OF l] by blast
      note f12 = frame_trans[OF f1 f2]
      show ?thesis
      proof (cases t)
        case (Next fa')
        with Suc.prems \<open>\<not> is_finish fa\<close> g True l
        have "while_loop n e st2 fa' = Some (r, st')" by simp
        from frame_trans[OF f12 Suc.IH[OF this]] show ?thesis .
      next
        case (Return f)
        with Suc.prems \<open>\<not> is_finish fa\<close> g True l have "st' = st2" by simp
        with f12 show ?thesis by simp
      next
        case (Raise x)
        with Suc.prems \<open>\<not> is_finish fa\<close> g True l have "st' = st2" by simp
        with f12 show ?thesis by simp
      qed
    qed
  qed
qed

lemma while_loop_fuel:
  "while_loop n e st fa = Some res \<Longrightarrow> while_loop (n + k) e st fa = Some res"
proof (induction n arbitrary: st fa)
  case 0
  thus ?case by simp
next
  case (Suc n)
  show ?case
  proof (cases "is_finish fa")
    case True
    with Suc.prems show ?thesis by simp
  next
    case False
    obtain ok st1 where g: "rpm_gate e st = (ok, st1)" by (cases "rpm_gate e st")
    obtain t st2 where l: "loop_turn e st1 = (t, st2)" by (cases "loop_turn e st1")
    show ?thesis
    proof (cases ok)
      case False
      with Suc.prems \<open>\<not> is_finish fa\<close> g have "while_loop n e st1 fa = Some res" by simp
      from Suc.IH[OF this] \<open>\<not> is_finish fa\<close> g False show ?thesis by simp
    next
      case True
      show ?thesis
      proof (cases t)
        case (Next fa')
        with Suc.prems \<open>\<not> is_finish fa\<close> g True l
        have "while_loop n e st2 fa' = Some res" by simp
        from Suc.IH[OF this] \<open>\<not> is_finish fa\<close> g True l Next show ?thesis by simp
      next
        case (Return f)
        with Suc.prems \<open>\<not> is_finish fa\<close> g True l show ?thesis by simp
      next
        case (Raise x)
        with Suc.prems \<open>\<not> is_finish fa\<close> g True l show ?thesis by simp
      qed
    qed
  qed
qed


lemma invoke_loop_Suc_cases:
  assumes "invoke_loop (Suc n) e st fa = Some (r, st')"
  obtains
    (ret) v where "while_loop n e st fa = Some (Returned v, st')" "r = Inr v"
  | (parse) err fa1 st1 r2 where
      "while_loop n e st fa = Some (Raised (OutputParserException err) fa1, st1)"
      "invoke_loop n e
         (st1\<lparr>messages := messages st1 @ [\<lparr>role = ''assistant'', content = err\<rparr>]\<rparr>) fa1
       = Some (r2, st')"
      "r = (case r2 of Inl x \<Rightarrow> Inl x | Inr v \<Rightarrow> Inr fa1)"
  | (exit) m fa1 where
      "while_loop n e st fa = Some (Raised (SystemExit m) fa1, st')" "r = Inl (SystemExit m)"
  | (other) m fa1 where
      "while_loop n e st fa = Some (Raised (Exception m) fa1, st')"
      "\<not> is_context_limit_error e m" "r = Inl (Exception m)"
  | (overflow_raises) m fa1 st1 x where
      "while_loop n e st fa = Some (Raised (Exception m) fa1, st1)"
      "is_context_limit_error e m" "handle_context_length e st1 = (Inl x, st')" "r = Inl x"
  | (overflow) m fa1 st1 st2 r2 u where
      "while_loop n e st fa = Some (Raised (Exception m) fa1, st1)"
      "is_context_limit_error e m" "handle_context_length e st1 = (Inr u, st2)"
      "invoke_loop n e st2 fa1 = Some (r2, st')"
      "r = (case r2 of Inl x \<Rightarrow> Inl x | Inr v \<Rightarrow> Inr fa1)"
proof (cases "while_loop n e st fa")
  case None
  with assms show ?thesis by simp
next
  case (Some p)
  obtain t st1 where p: "p = (t, st1)" by (cases p)
  show ?thesis
  proof (cases t)
    case (Returned v)
    with assms Some p have "st' = st1" "r = Inr v" by simp_all
    with ret Some p Returned show ?thesis by simp
  next
    case (Raised x fa1)
    show ?thesis
    proof (cases x)
      case (OutputParserException err)
      let ?st = "st1\<lparr>messages := messages st1 @ [\<lparr>role = ''assistant'', content = err\<rparr>]\<rparr>"
      from assms Some p Raised OutputParserException
      obtain r2 where "invoke_loop n e ?st fa1 = Some (r2, st')"
        "r = (case r2 of Inl x \<Rightarrow> Inl x | Inr v \<Rightarrow> Inr fa1)"
        by (auto split: option.splits sum.splits prod.splits)
      with parse Some p Raised OutputParserException show ?thesis by simp
    next
      case (SystemExit m)
      with assms Some p Raised have "st' = st1" "r = Inl (SystemExit m)" by simp_all
      with exit Some p Raised SystemExit show ?thesis by simp
    next
      case (Exception m)
      show ?thesis
      proof (cases "is_context_limit_error e m")
        case False
        with assms Some p Raised Exception have "st' = st1" "r = Inl (Exception m)" by simp_all
        with other Some p Raised Exception False show ?thesis by simp
      next
        case True
        obtain h st2 where h: "handle_context_length e st1 = (h, st2)"
          by (cases "handle_context_length e st1")
        show ?thesis
        proof (cases h)
          case (Inl y)
          with assms Some p Raised Exception True h have "st' = st2" "r = Inl y" by simp_all
          with overflow_raises Some p Raised Exception True h Inl show ?thesis by simp
        next
          case (Inr u)
          with assms Some p Raised Exception True h
          obtain r2 where "invoke_loop n e st2 fa1 = Some (r2, st')"
            "r = (case r2 of Inl x \<Rightarrow> Inl x | Inr v \<Rightarrow> Inr fa1)"
            by (auto split: option.splits sum.splits prod.splits)
          with overflow Some p Raised Exception True h Inr show ?thesis by simp
        qed
      qed
    qed
  qed
qed

lemma summarize_groups_frame:
  "summarize_groups e st gs acc = (r, st') \<Longrightarrow>
     messages st' = messages st \<and> have_forced_answer st' = have_forced_answer st
     \<and> (\<exists>evs. trace st' = trace st @ evs \<and> (\<forall>l m. Logged l m \<notin> set evs))"
proof (induction gs arbitrary: st acc)
  case Nil
  thus ?case by simp
next
  case (Cons g gs)
  let ?st1 = "st\<lparr>trace := trace st @ [LLMCalled None (summarize_prompt e g)]\<rparr>"
  show ?case
  proof (cases "llm_call e st None (summarize_prompt e g)")
    case (Inl x)
    with Cons.prems have "st' = ?st1" by (simp add: Let_def)
    hence "messages st' = messages st" "have_forced_answer st' = have_forced_answer st"
      "trace st' = trace st @ [LLMCalled None (summarize_prompt e g)]" by simp_all
    moreover have "\<forall>l m. Logged l m \<notin> set [LLMCalled None (summarize_prompt e g)]" by simp
    ultimately show ?thesis by blast
  next
    case (Inr s)
    with Cons.prems have "summarize_groups e ?st1 gs (acc @ [s]) = (r, st')"
      by (simp add: Let_def)
    from Cons.IH[OF this] obtain evs where
      a: "messages st' = messages st" "have_forced_answer st' = have_forced_answer st"
      and evs: "trace st' = trace ?st1 @ evs" "\<forall>l m. Logged l m \<notin> set evs" by auto
    have "trace st' = trace st @ (LLMCalled None (summarize_prompt e g) # evs)"
      using evs by simp
    moreover have "\<forall>l m. Logged l m \<notin> set (LLMCalled None (summarize_prompt e g) # evs)"
      using evs by simp
    ultimately show ?thesis using a by blast
  qed
qed

lemma handle_context_length_exit:
  "\<not> respect_context_window e \<Longrightarrow>
     handle_context_length e st =
       (Inl (SystemExit
          ''Context length exceeded and user opted not to summarize. Consider using smaller text or RAG tools from crewai_tools.''),
        st\<lparr>trace := trace st @
          [Logged ''debug''
             ''Context length exceeded. Consider using smaller text or RAG tools from crewai_tools.'']\<rparr>)"
  by (simp add: handle_context_length_def log_def)


lemma handle_context_length_summarizing:
  assumes "respect_context_window e" "handle_context_length e st = (r, st')"
  shows "\<exists>evs. trace st' = trace st @
            Logged ''debug''
              ''Context length exceeded. Summarizing content to fit the model context window.''
            # evs"
    and "(\<exists>x. r = Inl x) \<Longrightarrow> messages st' = messages st"
    and "(\<exists>u. r = Inr u) \<Longrightarrow> \<exists>s. messages st' = [format_msg (summary (i18n e) s) ''user'']"
proof -
  let ?st0 = "log ''debug''
     ''Context length exceeded. Summarizing content to fit the model context window.'' st"
  obtain r1 st1 where g: "summarize_groups e ?st0 (messages_groups (messages ?st0)) [] = (r1, st1)"
    by (cases "summarize_groups e ?st0 (messages_groups (messages ?st0)) []")
  from summarize_groups_frame[OF g] obtain evs where
    f: "messages st1 = messages st" "trace st1 = trace ?st0 @ evs"
    by (auto simp: log_def)
  from assms g have t: "trace st' = trace st1"
    by (auto simp: handle_context_length_def summarize_messages_def split: sum.splits)
  with f show "\<exists>evs. trace st' = trace st @
            Logged ''debug''
              ''Context length exceeded. Summarizing content to fit the model context window.''
            # evs"
    by (simp add: log_def)
  from assms g f show "(\<exists>x. r = Inl x) \<Longrightarrow> messages st' = messages st"
    by (auto simp: handle_context_length_def summarize_messages_def split: sum.splits)
  from assms g show "(\<exists>u. r = Inr u) \<Longrightarrow> \<exists>s. messages st' = [format_msg (summary (i18n e) s) ''user'']"
    by (auto simp: handle_context_length_def summarize_messages_def split: sum.splits)
qed

lemma invoke_loop_fuel:
  "invoke_loop n e st fa = Some res \<Longrightarrow> invoke_loop (n + k) e st fa = Some res"
proof (induction n arbitrary: st fa res)
  case 0
  thus ?case by simp
next
  case (Suc n)
  obtain r st' where res: "res = (r, st')" by (cases res)
  from Suc.prems[unfolded res] show ?case
  proof (cases rule: invoke_loop_Suc_cases)
    case (ret v)
    from while_loop_fuel[OF ret(1), of k] ret(2) res show ?thesis by simp
  next
    case (parse err fa1 st1 r2)
    from while_loop_fuel[OF parse(1), of k] Suc.IH[OF parse(2)] parse(3) res
    show ?thesis by (cases r2) simp_all
  next
    case (exit m fa1)
    from while_loop_fuel[OF exit(1), of k] exit(2) res show ?thesis by simp
  next
    case (other m fa1)
    from while_loop_fuel[OF other(1), of k] other(2,3) res show ?thesis by simp
  next
    case (overflow_raises m fa1 st1 x)
    from while_loop_fuel[OF overflow_raises(1), of k] overflow_raises(2,3,4) res
    show ?thesis by simp
  next
    case (overflow m fa1 st1 st2 r2 u)
    from while_loop_fuel[OF overflow(1), of k] Suc.IH[OF overflow(4)] overflow(2,3,5) res
    show ?thesis by (cases r2) simp_all
  qed
qed


section \<open>The forced-answer flag\<close>




section \<open>Runs of the loop and of the entry point\<close>

lemma training_improved_output_frame:
  assumes "training_improved_output e st res = (r, st')"
  shows "messages st' = messages st
     \<and> (\<exists>evs. trace st' = trace st @ evs \<and> (\<forall>m. Logged ''debug'' m \<notin> set evs))"
proof -
  let ?st1 = "st\<lparr>trace := trace st @ [TrainingLoaded]\<rparr>"
  let ?st2 = "?st1\<lparr>trace := trace ?st1 @ [TrainingLoaded]\<rparr>"
  from assms have "st' = ?st1 \<or> st' = ?st2
      \<or> st' = log ''error'' ''Invalid crew or missing _train_iteration attribute.'' ?st2
      \<or> (\<exists>d. st' = ?st2\<lparr>trace := trace ?st2 @ [TrainingSaved d]\<rparr>)"
    by (auto simp: training_improved_output_def Let_def split: if_splits option.splits)
  moreover
  { assume "st' = ?st1"
    hence "messages st' = messages st" "trace st' = trace st @ [TrainingLoaded]" by simp_all
    moreover have "\<forall>m. Logged ''debug'' m \<notin> set [TrainingLoaded]" by simp
    ultimately have ?thesis by blast }
  moreover
  { assume "st' = ?st2"
    hence "messages st' = messages st" "trace st' = trace st @ [TrainingLoaded, TrainingLoaded]"
      by simp_all
    moreover have "\<forall>m. Logged ''debug'' m \<notin> set [TrainingLoaded, TrainingLoaded]" by simp
    ultimately have ?thesis by blast }
  moreover
  { assume "st' = log ''error'' ''Invalid crew or missing _train_iteration attribute.'' ?st2"
    hence "messages st' = messages st"
      "trace st' = trace st @ [TrainingLoaded, TrainingLoaded,
         Logged ''error'' ''Invalid crew or missing _train_iteration attribute.'']"
      by (simp_all add: log_def)
    moreover have "\<forall>m. Logged ''debug'' m \<notin> set [TrainingLoaded, TrainingLoaded,
         Logged ''error'' ''Invalid crew or missing _train_iteration attribute.'']" by simp
    ultimately have ?thesis by blast }
  moreover
  { assume "\<exists>d. st' = ?st2\<lparr>trace := trace ?st2 @ [TrainingSaved d]\<rparr>"
    then obtain d where "st' = ?st2\<lparr>trace := trace ?st2 @ [TrainingSaved d]\<rparr>" ..
    hence "messages st' = messages st"
      "trace st' = trace st @ [TrainingLoaded, TrainingLoaded, TrainingSaved d]"
      by simp_all
    moreover have "\<forall>m. Logged ''debug'' m \<notin> set [TrainingLoaded, TrainingLoaded, TrainingSaved d]"
      by simp
    ultimately have ?thesis by blast }
  ultimately show ?thesis by blast
qed

lemma training_feedback_frame:
  "messages (training_feedback e st res hf) = messages st
     \<and> (\<exists>evs. trace (training_feedback e st res hf) = trace st @ evs
              \<and> (\<forall>m. Logged ''debug'' m \<notin> set evs))"
proof -
  let ?st' = "training_feedback e st res hf"
  have "?st' = st
      \<or> ?st' = log ''error'' ''Crew is None or does not have _train_iteration attribute.'' st
      \<or> ?st' = log ''error'' ''Invalid train iteration type. Expected int.'' st
      \<or> (\<exists>i a d. ?st' = st\<lparr>trace := trace st @ [TrainingAppended i a d]\<rparr>)"
    by (auto simp: training_feedback_def split: option.splits pyval.splits)
  moreover
  { assume "?st' = st"
    hence "messages ?st' = messages st" "trace ?st' = trace st @ []" by simp_all
    moreover have "\<forall>m. Logged ''debug'' m \<notin> set []" by simp
    ultimately have ?thesis by blast }
  moreover
  { fix msg assume "?st' = log ''error'' msg st"
    hence "messages ?st' = messages st" "trace ?st' = trace st @ [Logged ''error'' msg]"
      by (simp_all add: log_def)
    moreover have "\<forall>m. Logged ''debug'' m \<notin> set [Logged ''error'' msg]" by simp
    ultimately have ?thesis by blast }
  moreover
  { assume "\<exists>i a d. ?st' = st\<lparr>trace := trace st @ [TrainingAppended i a d]\<rparr>"
    then obtain i a d where "?st' = st\<lparr>trace := trace st @ [TrainingAppended i a d]\<rparr>" by blast
    hence "messages ?st' = messages st" "trace ?st' = trace st @ [TrainingAppended i a d]"
      by simp_all
    moreover have "\<forall>m. Logged ''debug'' m \<notin> set [TrainingAppended i a d]" by simp
    ultimately have ?thesis by blast }
  ultimately show ?thesis by blast
qed

lemma handle_crew_training_output_frame:
  assumes "handle_crew_training_output e st res hf = (r, st')"
  shows "messages st' = messages st
     \<and> (\<exists>evs. trace st' = trace st @ evs \<and> (\<forall>m. Logged ''debug'' m \<notin> set evs))"
proof -
  obtain r1 st1 where t: "training_improved_output e st res = (r1, st1)"
    by (cases "training_improved_output e st res")
  from training_improved_output_frame[OF t] obtain ev1 where
    a: "messages st1 = messages st" "trace st1 = trace st @ ev1"
       "\<forall>m. Logged ''debug'' m \<notin> set ev1" by blast
  show ?thesis
  proof (cases r1)
    case (Inl x)
    with assms t have "st' = st1" by (simp add: handle_crew_training_output_def)
    with a show ?thesis by blast
  next
    case (Inr u)
    with assms t have s: "st' = training_feedback e st1 res hf"
      by (simp add: handle_crew_training_output_def)
    from training_feedback_frame[of e st1 res hf] obtain ev2 where
      b: "messages st' = messages st1" "trace st' = trace st1 @ ev2"
         "\<forall>m. Logged ''debug'' m \<notin> set ev2" unfolding s by blast
    have "trace st' = trace st @ (ev1 @ ev2)" using a b by simp
    moreover have "\<forall>m. Logged ''debug'' m \<notin> set (ev1 @ ev2)" using a b by simp
    ultimately show ?thesis using a b by (metis)
  qed
qed


lemma invoke_loop_exit:
  assumes nr: "\<not> respect_context_window e"
  shows "invoke_loop n e st fa = Some (r, st') \<Longrightarrow>
     \<exists>evs. trace st' = trace st @ evs
       \<and> ((\<exists>l m. Logged l m \<in> set evs) \<longrightarrow>
            r = Inl (SystemExit
              ''Context length exceeded and user opted not to summarize. Consider using smaller text or RAG tools from crewai_tools.''))"
proof (induction n arbitrary: st fa r st')
  case 0
  thus ?case by simp
next
  case (Suc n)
  let ?X = "Inl (SystemExit
              ''Context length exceeded and user opted not to summarize. Consider using smaller text or RAG tools from crewai_tools.'')
            :: exn + answer option"
  from Suc.prems show ?case
  proof (cases rule: invoke_loop_Suc_cases)
    case (ret v)
    from while_loop_frame_all[OF ret(1)] show ?thesis by blast
  next
    case (exit m fa1)
    from while_loop_frame_all[OF exit(1)] show ?thesis by blast
  next
    case (other m fa1)
    from while_loop_frame_all[OF other(1)] show ?thesis by blast
  next
    case (parse err fa1 st1 r2)
    from while_loop_frame_all[OF parse(1)] obtain ev1 where
      e1: "trace st1 = trace st @ ev1" "\<forall>l m. Logged l m \<notin> set ev1" by blast
    from Suc.IH[OF parse(2)] obtain ev2 where
      e2: "trace st' = trace st1 @ ev2" "(\<exists>l m. Logged l m \<in> set ev2) \<longrightarrow> r2 = ?X"
      by auto
    have t: "trace st' = trace st @ (ev1 @ ev2)" using e1 e2 by simp
    have "(\<exists>l m. Logged l m \<in> set (ev1 @ ev2)) \<longrightarrow> r = ?X"
    proof
      assume "\<exists>l m. Logged l m \<in> set (ev1 @ ev2)"
      with e1(2) have "\<exists>l m. Logged l m \<in> set ev2" by auto
      with e2(2) have "r2 = ?X" by blast
      with parse(3) show "r = ?X" by simp
    qed
    with t show ?thesis by blast
  next
    case (overflow_raises m fa1 st1 x)
    from while_loop_frame_all[OF overflow_raises(1)] obtain ev1 where
      e1: "trace st1 = trace st @ ev1" by blast
    from handle_context_length_exit[OF nr, of st1] overflow_raises(3,4)
    have "r = ?X" and "trace st' = trace st1 @
        [Logged ''debug''
           ''Context length exceeded. Consider using smaller text or RAG tools from crewai_tools.'']"
      by auto
    with e1 show ?thesis by simp
  next
    case (overflow m fa1 st1 st2 r2 u)
    from handle_context_length_exit[OF nr, of st1] overflow(3) show ?thesis by simp
  qed
qed

lemma handle_context_length_trace:
  "handle_context_length e st = (r, st') \<Longrightarrow> \<exists>evs. trace st' = trace st @ evs"
proof (cases "respect_context_window e")
  case True
  assume "handle_context_length e st = (r, st')"
  from handle_context_length_summarizing(1)[OF True this] show ?thesis by auto
next
  case False
  assume "handle_context_length e st = (r, st')"
  with handle_context_length_exit[OF False, of st] show ?thesis by auto
qed

lemma invoke_loop_messages:
  "invoke_loop n e st fa = Some (r, st') \<Longrightarrow>
     (\<exists>evs. trace st' = trace st @ evs
        \<and> (Logged ''debug''
              ''Context length exceeded. Summarizing content to fit the model context window.''
             \<notin> set evs \<longrightarrow> (\<exists>ms. messages st' = messages st @ ms)))
     \<and> ((\<exists>ms. messages st' = messages st @ ms)
        \<or> (\<exists>s ms. messages st' = format_msg (summary (i18n e) s) ''user'' # ms))"
proof (induction n arbitrary: st fa r st')
  case 0
  thus ?case by simp
next
  case (Suc n)
  let ?S = "Logged ''debug''
              ''Context length exceeded. Summarizing content to fit the model context window.''"
  from Suc.prems show ?case
  proof (cases rule: invoke_loop_Suc_cases)
    case (ret v)
    from while_loop_frame_all[OF ret(1)] show ?thesis by blast
  next
    case (exit m fa1)
    from while_loop_frame_all[OF exit(1)] show ?thesis by blast
  next
    case (other m fa1)
    from while_loop_frame_all[OF other(1)] show ?thesis by blast
  next
    case (parse err fa1 st1 r2)
    let ?st1 = "st1\<lparr>messages := messages st1 @ [\<lparr>role = ''assistant'', content = err\<rparr>]\<rparr>"
    from while_loop_frame_all[OF parse(1)] obtain ev1 ms1 where
      e1: "trace st1 = trace st @ ev1" "messages st1 = messages st @ ms1" by blast
    from Suc.IH[OF parse(2)] obtain ev2 where
      e2: "trace st' = trace ?st1 @ ev2"
        "?S \<notin> set ev2 \<longrightarrow> (\<exists>ms. messages st' = messages ?st1 @ ms)"
      and d: "(\<exists>ms. messages st' = messages ?st1 @ ms)
        \<or> (\<exists>s ms. messages st' = format_msg (summary (i18n e) s) ''user'' # ms)"
      by blast
    have p: "(\<exists>ms. messages st' = messages ?st1 @ ms) \<Longrightarrow> \<exists>ms. messages st' = messages st @ ms"
      using e1(2) by auto
    have t: "trace st' = trace st @ (ev1 @ ev2)" using e1 e2 by simp
    have "?S \<notin> set (ev1 @ ev2) \<longrightarrow> (\<exists>ms. messages st' = messages st @ ms)"
      using e2(2) p by auto
    with t have "\<exists>evs. trace st' = trace st @ evs
        \<and> (?S \<notin> set evs \<longrightarrow> (\<exists>ms. messages st' = messages st @ ms))" by blast
    moreover from d p have "(\<exists>ms. messages st' = messages st @ ms)
        \<or> (\<exists>s ms. messages st' = format_msg (summary (i18n e) s) ''user'' # ms)" by blast
    ultimately show ?thesis by blast
  next
    case (overflow_raises m fa1 st1 x)
    from while_loop_frame_all[OF overflow_raises(1)] obtain ev1 ms1 where
      e1: "trace st1 = trace st @ ev1" "messages st1 = messages st @ ms1" by blast
    from handle_context_length_trace[OF overflow_raises(3)] obtain ev2 where
      e2: "trace st' = trace st1 @ ev2" by blast
    have "messages st' = messages st1"
    proof (cases "respect_context_window e")
      case True
      from handle_context_length_summarizing(2)[OF True overflow_raises(3)] show ?thesis by simp
    next
      case False
      from handle_context_length_exit[OF False, of st1] overflow_raises(3) show ?thesis by auto
    qed
    with e1 have "\<exists>ms. messages st' = messages st @ ms" by simp
    moreover have "trace st' = trace st @ (ev1 @ ev2)" using e1 e2 by simp
    ultimately show ?thesis by blast
  next
    case (overflow m fa1 st1 st2 r2 u)
    from while_loop_frame_all[OF overflow(1)] obtain ev1 where
      e1: "trace st1 = trace st @ ev1" by blast
    have resp: "respect_context_window e"
    proof (rule ccontr)
      assume "\<not> respect_context_window e"
      from handle_context_length_exit[OF this, of st1] overflow(3) show False by simp
    qed
    from handle_context_length_summarizing(1)[OF resp overflow(3)] obtain ev2 where
      e2: "trace st2 = trace st1 @ ?S # ev2" by blast
    from handle_context_length_summarizing(3)[OF resp overflow(3)] obtain s where
      m2: "messages st2 = [format_msg (summary (i18n e) s) ''user'']" by blast
    from Suc.IH[OF overflow(4)] obtain ev3 where
      e3: "trace st' = trace st2 @ ev3"
      and d: "(\<exists>ms. messages st' = messages st2 @ ms)
        \<or> (\<exists>s ms. messages st' = format_msg (summary (i18n e) s) ''user'' # ms)"
      by blast
    have t: "trace st' = trace st @ (ev1 @ ?S # ev2 @ ev3)" using e1 e2 e3 by simp
    have "?S \<in> set (ev1 @ ?S # ev2 @ ev3)" by simp
    with t have "\<exists>evs. trace st' = trace st @ evs
        \<and> (?S \<notin> set evs \<longrightarrow> (\<exists>ms. messages st' = messages st @ ms))" by blast
    moreover from d m2 have "\<exists>s ms. messages st' = format_msg (summary (i18n e) s) ''user'' # ms"
      by auto
    ultimately show ?thesis by blast
  qed
qed


lemma seed_messages_frame:
  assumes "seed_messages e st inputs = Inr st1"
  shows "trace st1 = trace st" "\<exists>ms. messages st1 = messages st @ ms"
  using assms by (auto simp: seed_messages_def split: if_splits sum.splits)

lemma invoke_cases:
  assumes "invoke n e st inputs = Some (ri, st')"
  obtains
    (seed_raises) "st' = st"
  | (single_run) st1 st2 r1 where
      "seed_messages e st inputs = Inr st1"
      "messages st2 = messages st1" "trace st2 = trace st1"
      "invoke_loop n e st2 None = Some (r1, st')"
      "(\<exists>x. r1 = Inl x \<and> ri = Inl (LoopError x)) \<or> (\<exists>v. r1 = Inr v)"
  | (training_raises) st1 st2 v st3 c st4 where
      "seed_messages e st inputs = Inr st1"
      "messages st2 = messages st1" "trace st2 = trace st1"
      "invoke_loop n e st2 None = Some (Inr v, st3)"
      "messages st4 = messages st3" "trace st4 = trace st3 @ [HumanInputAsked c]"
      "\<exists>f hf x. handle_crew_training_output e st4 f hf = (Inl x, st')"
  | (both_runs) st1 st2 v st3 c st4 st5 st6 fb r2 where
      "seed_messages e st inputs = Inr st1"
      "messages st2 = messages st1" "trace st2 = trace st1"
      "invoke_loop n e st2 None = Some (Inr v, st3)"
      "messages st4 = messages st3" "trace st4 = trace st3 @ [HumanInputAsked c]"
      "st5 = st4 \<or> (\<exists>f hf u. handle_crew_training_output e st4 f hf = (Inr u, st5))"
      "messages st6 = messages st5 @ [fb]" "trace st6 = trace st5"
      "invoke_loop n e st6 None = Some (r2, st')"
      "(\<exists>x. r2 = Inl x \<and> ri = Inl (LoopError x)) \<or> (\<exists>v. r2 = Inr v)"
proof (cases "seed_messages e st inputs")
  case (Inl x)
  with assms have "st' = st" by (simp add: invoke_def)
  with seed_raises show ?thesis .
next
  case (Inr st1)
  let ?st2 = "st1\<lparr>ask_for_human_input :=
                 (case inputs ''ask_for_human_input'' of None \<Rightarrow> False | Some v \<Rightarrow> v \<noteq> [])\<rparr>"
  have m2: "messages ?st2 = messages st1" "trace ?st2 = trace st1" by simp_all
  from assms Inr obtain r1 st3 where l1: "invoke_loop n e ?st2 None = Some (r1, st3)"
    by (cases "invoke_loop n e ?st2 None") (auto simp: invoke_def Let_def)
  show ?thesis
  proof (cases r1)
    case (Inl x)
    with assms Inr l1 have "st' = st3" "ri = Inl (LoopError x)"
      by (simp_all add: invoke_def Let_def)
    with single_run[OF Inr m2] l1 Inl show ?thesis by simp
  next
    case r1: (Inr v)
    show ?thesis
    proof (cases "ask_for_human_input st3")
      case False
      with assms Inr l1 r1 have "st' = st3"
        by (auto simp: invoke_def Let_def split: sum.splits)
      with single_run[OF Inr m2] l1 r1 show ?thesis by simp
    next
      case True
      show ?thesis
      proof (cases "the_finish v")
        case (Inl x)
        with assms Inr l1 r1 True have "st' = st3"
          by (auto simp: invoke_def Let_def)
        with single_run[OF Inr m2] l1 r1 show ?thesis by simp
      next
        case f: (Inr f)
        let ?hf = "ask_human_input e st3 (finish_output f)"
        let ?st4 = "st3\<lparr>trace := trace st3 @ [HumanInputAsked (finish_output f)]\<rparr>"
        let ?T = "if (case the_crew e of None \<Rightarrow> False | Some c \<Rightarrow> train c)
                  then handle_crew_training_output e ?st4 f (Some ?hf)
                  else (Inr (), ?st4)"
        have m4: "messages ?st4 = messages st3"
          "trace ?st4 = trace st3 @ [HumanInputAsked (finish_output f)]" by simp_all
        obtain rt st5 where T: "?T = (rt, st5)" by (cases ?T)
        show ?thesis
        proof (cases rt)
          case (Inl x)
          with assms Inr l1 r1 True f T have "st' = st5"
            by (simp add: invoke_def Let_def)
          moreover from T Inl have "handle_crew_training_output e ?st4 f (Some ?hf) = (Inl x, st5)"
            by (auto split: if_splits)
          ultimately have "\<exists>f hf x. handle_crew_training_output e ?st4 f hf = (Inl x, st')"
            by blast
          from training_raises[OF Inr m2 l1[unfolded r1] m4 this] show ?thesis .
        next
          case u: (Inr u)
          let ?st6 = "st5\<lparr>ask_for_human_input := False,
                         messages := messages st5 @ [format_msg (''Feedback: '' @ ?hf) ''user'']\<rparr>"
          have m6: "messages ?st6 = messages st5 @ [format_msg (''Feedback: '' @ ?hf) ''user'']"
            "trace ?st6 = trace st5" by simp_all
          from T u have s5: "st5 = ?st4
              \<or> (\<exists>f hf u. handle_crew_training_output e ?st4 f hf = (Inr u, st5))"
            by (auto split: if_splits)
          from assms Inr l1 r1 True f T u obtain r2 st7 where
            l2: "invoke_loop n e ?st6 None = Some (r2, st7)"
            by (cases "invoke_loop n e ?st6 None") (auto simp: invoke_def Let_def)
          from assms Inr l1 r1 True f T u l2 have "st' = st7"
            by (auto simp: invoke_def Let_def split: sum.splits)
          moreover from assms Inr l1 r1 True f T u l2
          have "(\<exists>x. r2 = Inl x \<and> ri = Inl (LoopError x)) \<or> (\<exists>v. r2 = Inr v)"
            by (cases r2) (auto simp: invoke_def Let_def)
          ultimately show ?thesis
            using both_runs[OF Inr m2 l1[unfolded r1] m4 s5 m6] l2 by blast
        qed
      qed
    qed
  qed
qed


lemma invoke_exit:
  assumes nr: "\<not> respect_context_window e"
    and inv: "invoke n e st inputs = Some (ri, st')"
  shows "\<exists>evs. trace st' = trace st @ evs
       \<and> (Logged ''debug''
             ''Context length exceeded. Consider using smaller text or RAG tools from crewai_tools.''
            \<in> set evs \<longrightarrow>
            ri = Inl (LoopError (SystemExit
              ''Context length exceeded and user opted not to summarize. Consider using smaller text or RAG tools from crewai_tools.'')))"
proof -
  let ?L = "Logged ''debug''
             ''Context length exceeded. Consider using smaller text or RAG tools from crewai_tools.''"
  let ?X = "SystemExit
              ''Context length exceeded and user opted not to summarize. Consider using smaller text or RAG tools from crewai_tools.''"
  from inv show ?thesis
  proof (cases rule: invoke_cases)
    case seed_raises
    thus ?thesis by simp
  next
    case (single_run st1 st2 r1)
    from invoke_loop_exit[OF nr single_run(4)] obtain ev where
      ev: "trace st' = trace st2 @ ev" "(\<exists>l m. Logged l m \<in> set ev) \<longrightarrow> r1 = Inl ?X" by blast
    have "trace st' = trace st @ ev"
      using ev(1) single_run(3) seed_messages_frame(1)[OF single_run(1)] by simp
    moreover have "?L \<in> set ev \<longrightarrow> ri = Inl (LoopError ?X)"
      using ev(2) single_run(5) by auto
    ultimately show ?thesis by blast
  next
    case (training_raises st1 st2 v st3 c st4)
    from invoke_loop_exit[OF nr training_raises(4)] obtain ev1 where
      ev1: "trace st3 = trace st2 @ ev1" "\<forall>l m. Logged l m \<notin> set ev1" by auto
    from training_raises(7) obtain f hf x where
      "handle_crew_training_output e st4 f hf = (Inl x, st')" by blast
    from handle_crew_training_output_frame[OF this] obtain ev2 where
      ev2: "trace st' = trace st4 @ ev2" "\<forall>m. Logged ''debug'' m \<notin> set ev2" by blast
    have "trace st' = trace st @ (ev1 @ HumanInputAsked c # ev2)"
      using ev1 ev2 training_raises(3,6) seed_messages_frame(1)[OF training_raises(1)] by simp
    moreover have "?L \<notin> set (ev1 @ HumanInputAsked c # ev2)" using ev1(2) ev2(2) by simp
    ultimately show ?thesis by blast
  next
    case (both_runs st1 st2 v st3 c st4 st5 st6 fb r2)
    from invoke_loop_exit[OF nr both_runs(4)] obtain ev1 where
      ev1: "trace st3 = trace st2 @ ev1" "\<forall>l m. Logged l m \<notin> set ev1" by auto
    from both_runs(7) handle_crew_training_output_frame obtain ev2 where
      ev2: "trace st5 = trace st4 @ ev2" "\<forall>m. Logged ''debug'' m \<notin> set ev2"
      by (metis append_Nil2 empty_iff list.set(1))
    from invoke_loop_exit[OF nr both_runs(10)] obtain ev3 where
      ev3: "trace st' = trace st6 @ ev3" "(\<exists>l m. Logged l m \<in> set ev3) \<longrightarrow> r2 = Inl ?X"
      by blast
    have "trace st' = trace st @ (ev1 @ HumanInputAsked c # ev2 @ ev3)"
      using ev1 ev2 ev3 both_runs(3,6,9) seed_messages_frame(1)[OF both_runs(1)] by simp
    moreover have "?L \<in> set (ev1 @ HumanInputAsked c # ev2 @ ev3) \<longrightarrow> ri = Inl (LoopError ?X)"
    proof
      assume "?L \<in> set (ev1 @ HumanInputAsked c # ev2 @ ev3)"
      with ev1(2) ev2(2) have "?L \<in> set ev3" by auto
      with ev3(2) have "r2 = Inl ?X" by blast
      with both_runs(11) show "ri = Inl (LoopError ?X)" by auto
    qed
    ultimately show ?thesis by blast
  qed
qed

lemma grows_or_summarized_trans:
  assumes "(\<exists>ms. b = a @ ms) \<or> (\<exists>s ms. b = format_msg (summary c s) ''user'' # ms)"
    and "(\<exists>ms. d = b @ ms) \<or> (\<exists>s ms. d = format_msg (summary c s) ''user'' # ms)"
  shows "(\<exists>ms. d = a @ ms) \<or> (\<exists>s ms. d = format_msg (summary c s) ''user'' # ms)"
  using assms by (metis append.assoc append_Cons)

lemma invoke_messages:
  assumes inv: "invoke n e st inputs = Some (ri, st')"
  shows "(\<exists>evs. trace st' = trace st @ evs
        \<and> (Logged ''debug''
              ''Context length exceeded. Summarizing content to fit the model context window.''
             \<notin> set evs \<longrightarrow> (\<exists>ms. messages st' = messages st @ ms)))
     \<and> ((\<exists>ms. messages st' = messages st @ ms)
        \<or> (\<exists>s ms. messages st' = format_msg (summary (i18n e) s) ''user'' # ms))"
proof -
  let ?S = "Logged ''debug''
              ''Context length exceeded. Summarizing content to fit the model context window.''"
  from inv show ?thesis
  proof (cases rule: invoke_cases)
    case seed_raises
    thus ?thesis by simp
  next
    case (single_run st1 st2 r1)
    from seed_messages_frame[OF single_run(1)] single_run(2,3) obtain ms0 where
      s2: "trace st2 = trace st" "messages st2 = messages st @ ms0" by auto
    from invoke_loop_messages[OF single_run(4)] obtain ev where
      ev: "trace st' = trace st2 @ ev" "?S \<notin> set ev \<longrightarrow> (\<exists>ms. messages st' = messages st2 @ ms)"
      and d: "(\<exists>ms. messages st' = messages st2 @ ms)
        \<or> (\<exists>s ms. messages st' = format_msg (summary (i18n e) s) ''user'' # ms)" by blast
    have p: "(\<exists>ms. messages st' = messages st2 @ ms) \<Longrightarrow> \<exists>ms. messages st' = messages st @ ms"
      using s2(2) by auto
    have "trace st' = trace st @ ev" using ev(1) s2(1) by simp
    moreover have "?S \<notin> set ev \<longrightarrow> (\<exists>ms. messages st' = messages st @ ms)"
      using ev(2) p by blast
    moreover from d p have "(\<exists>ms. messages st' = messages st @ ms)
        \<or> (\<exists>s ms. messages st' = format_msg (summary (i18n e) s) ''user'' # ms)" by blast
    ultimately show ?thesis by blast
  next
    case (training_raises st1 st2 v st3 c st4)
    from seed_messages_frame[OF training_raises(1)] training_raises(2,3) obtain ms0 where
      s2: "trace st2 = trace st" "messages st2 = messages st @ ms0" by auto
    from invoke_loop_messages[OF training_raises(4)] obtain ev1 where
      ev1: "trace st3 = trace st2 @ ev1"
        "?S \<notin> set ev1 \<longrightarrow> (\<exists>ms. messages st3 = messages st2 @ ms)"
      and d1: "(\<exists>ms. messages st3 = messages st2 @ ms)
        \<or> (\<exists>s ms. messages st3 = format_msg (summary (i18n e) s) ''user'' # ms)" by blast
    from training_raises(7) obtain f hf x where
      "handle_crew_training_output e st4 f hf = (Inl x, st')" by blast
    from handle_crew_training_output_frame[OF this] obtain ev2 where
      ev2: "trace st' = trace st4 @ ev2" "messages st' = messages st4" by blast
    have m: "messages st' = messages st3" using ev2(2) training_raises(5) by simp
    have p: "(\<exists>ms. messages st3 = messages st2 @ ms) \<Longrightarrow> \<exists>ms. messages st' = messages st @ ms"
      using s2(2) m by auto
    have "trace st' = trace st @ (ev1 @ HumanInputAsked c # ev2)"
      using ev1(1) ev2(1) s2(1) training_raises(6) by simp
    moreover have "?S \<notin> set (ev1 @ HumanInputAsked c # ev2)
        \<longrightarrow> (\<exists>ms. messages st' = messages st @ ms)"
      using ev1(2) p by auto
    moreover from d1 p m have "(\<exists>ms. messages st' = messages st @ ms)
        \<or> (\<exists>s ms. messages st' = format_msg (summary (i18n e) s) ''user'' # ms)" by auto
    ultimately show ?thesis by blast
  next
    case (both_runs st1 st2 v st3 c st4 st5 st6 fb r2)
    from seed_messages_frame[OF both_runs(1)] both_runs(2,3) obtain ms0 where
      s2: "trace st2 = trace st" "messages st2 = messages st @ ms0" by auto
    from invoke_loop_messages[OF both_runs(4)] obtain ev1 where
      ev1: "trace st3 = trace st2 @ ev1"
        "?S \<notin> set ev1 \<longrightarrow> (\<exists>ms. messages st3 = messages st2 @ ms)"
      and d1: "(\<exists>ms. messages st3 = messages st2 @ ms)
        \<or> (\<exists>s ms. messages st3 = format_msg (summary (i18n e) s) ''user'' # ms)" by blast
    from both_runs(7) handle_crew_training_output_frame obtain ev2 where
      ev2: "trace st5 = trace st4 @ ev2" "messages st5 = messages st4"
      by (metis append_Nil2)
    have m6: "messages st6 = messages st3 @ [fb]" using both_runs(5,8) ev2(2) by simp
    from invoke_loop_messages[OF both_runs(10)] obtain ev3 where
      ev3: "trace st' = trace st6 @ ev3"
        "?S \<notin> set ev3 \<longrightarrow> (\<exists>ms. messages st' = messages st6 @ ms)"
      and d3: "(\<exists>ms. messages st' = messages st6 @ ms)
        \<or> (\<exists>s ms. messages st' = format_msg (summary (i18n e) s) ''user'' # ms)" by blast
    have t: "trace st' = trace st @ (ev1 @ HumanInputAsked c # ev2 @ ev3)"
      using ev1(1) ev2(1) ev3(1) s2(1) both_runs(6,9) by simp
    have a: "?S \<notin> set (ev1 @ HumanInputAsked c # ev2 @ ev3)
        \<longrightarrow> (\<exists>ms. messages st' = messages st @ ms)"
    proof
      assume n: "?S \<notin> set (ev1 @ HumanInputAsked c # ev2 @ ev3)"
      with ev1(2) obtain ms1 where "messages st3 = messages st2 @ ms1" by auto
      moreover from n ev3(2) obtain ms3 where "messages st' = messages st6 @ ms3" by auto
      ultimately have "messages st' = messages st @ (ms0 @ ms1 @ [fb] @ ms3)"
        using s2(2) m6 by simp
      thus "\<exists>ms. messages st' = messages st @ ms" by blast
    qed
    have d01: "(\<exists>ms. messages st3 = messages st @ ms)
        \<or> (\<exists>s ms. messages st3 = format_msg (summary (i18n e) s) ''user'' # ms)"
      using d1 s2(2) by auto
    have d6: "(\<exists>ms. messages st6 = messages st @ ms)
        \<or> (\<exists>s ms. messages st6 = format_msg (summary (i18n e) s) ''user'' # ms)"
      using d01 m6 by auto
    from grows_or_summarized_trans[OF d6 d3] t a show ?thesis by blast
  qed
qed

section \<open>Re-entry, abort and the conversation\<close>

lemma while_loop_raised_not_finish:
  "while_loop n e st fa = Some (Raised x fa1, st1) \<Longrightarrow> \<not> is_finish fa1"
proof (induction n arbitrary: st fa)
  case 0
  thus ?case by simp
next
  case (Suc n)
  show ?case
  proof (cases "is_finish fa")
    case True
    with Suc.prems show ?thesis by simp
  next
    case False
    obtain ok st2 where g: "rpm_gate e st = (ok, st2)" by (cases "rpm_gate e st")
    obtain t st3 where l: "loop_turn e st2 = (t, st3)" by (cases "loop_turn e st2")
    show ?thesis
    proof (cases ok)
      case False
      with Suc.prems \<open>\<not> is_finish fa\<close> g Suc.IH show ?thesis by simp
    next
      case True
      with Suc.prems \<open>\<not> is_finish fa\<close> g l Suc.IH show ?thesis
        by (cases t) auto
    qed
  qed
qed

lemma invoke_loop_after_handler:
  assumes "invoke_loop (Suc n) e st fa = Some (Inr v, st')"
    and "while_loop n e st fa = Some (Raised x fa1, st1)"
  shows "v = fa1 \<and> \<not> is_finish v"
proof -
  from assms have "v = fa1"
    by (cases x) (auto split: option.splits sum.splits prod.splits if_splits)
  with while_loop_raised_not_finish[OF assms(2)] show ?thesis by simp
qed

text \<open>
  C1. \<^verbatim>\<open>_invoke_loop\<close> on a run with a parser error: the first answer of the model
  cannot be parsed, the error text is appended as an assistant message, and the loop is
  entered again; the re-entered loop returns an \<^verbatim>\<open>AgentFinish\<close>, yet the original call
  returns its own \<^verbatim>\<open>formatted_answer\<close>, which is \<^verbatim>\<open>None\<close>, and \<^verbatim>\<open>invoke\<close> then fails
  on the attribute \<^verbatim>\<open>output\<close>.
\<close>

theorem reentered_finish_is_dropped:
  "while_loop (Suc 0) retry_env init None =
     Some (Raised (OutputParserException
                     ''Invalid Format: I missed the Action or the Final Answer'') None,
           init\<lparr>iterations := 1, trace := [LLMCalled (Some (stop retry_env)) []]\<rparr>)
   \<and> invoke_loop (Suc (Suc (Suc 0))) retry_env
        (init\<lparr>iterations := 1, trace := [LLMCalled (Some (stop retry_env)) []],
              messages := [\<lparr>role = ''assistant'',
                            content = ''Invalid Format: I missed the Action or the Final Answer''\<rparr>]\<rparr>)
        None =
       Some (Inr (Some (AgentFinish \<lparr>finish_output = ''4'', finish_text = ''Final Answer: 4''\<rparr>)),
             init\<lparr>iterations := 2,
                  trace := [LLMCalled (Some (stop retry_env)) [],
                            LLMCalled (Some (stop retry_env))
                              [\<lparr>role = ''assistant'',
                                content = ''Invalid Format: I missed the Action or the Final Answer''\<rparr>]],
                  messages := [\<lparr>role = ''assistant'',
                                content = ''Invalid Format: I missed the Action or the Final Answer''\<rparr>]\<rparr>)
   \<and> invoke_loop (Suc (Suc (Suc (Suc 0)))) retry_env init None =
       Some (Inr None,
             init\<lparr>iterations := 2,
                  trace := [LLMCalled (Some (stop retry_env)) [],
                            LLMCalled (Some (stop retry_env))
                              [\<lparr>role = ''assistant'',
                                content = ''Invalid Format: I missed the Action or the Final Answer''\<rparr>]],
                  messages := [\<lparr>role = ''assistant'',
                                content = ''Invalid Format: I missed the Action or the Final Answer''\<rparr>]\<rparr>)
   \<and> map_option fst
        (invoke (Suc (Suc (Suc (Suc 0)))) retry_env init
           [''input'' \<mapsto> ''2+2'', ''tool_names'' \<mapsto> [], ''tools'' \<mapsto> []])
       = Some (Inl (AttributeError ''output''))"
proof -
  have g: "rpm_gate retry_env st = (True, st)" for st
    by (simp add: rpm_gate_def retry_env_def example_env_def)
  have t0: "loop_turn retry_env st =
       (Raise (OutputParserException ''Invalid Format: I missed the Action or the Final Answer''),
        st\<lparr>trace := trace st @ [LLMCalled (Some (stop retry_env)) (messages st)],
           iterations := iterations st + 1\<rparr>)"
    if "iterations st = 0" for st
    using that
    by (simp add: loop_turn_def Let_def retry_env_def example_env_def format_answer_def
        truncate_answer_def example_parse_def startswith_def)
  have t1: "loop_turn retry_env st =
       (Next (Some (AgentFinish \<lparr>finish_output = ''4'', finish_text = ''Final Answer: 4''\<rparr>)),
        st\<lparr>trace := trace st @ [LLMCalled (Some (stop retry_env)) (messages st)],
           iterations := iterations st + 1\<rparr>)"
    if "iterations st \<noteq> 0" for st
    using that
    by (simp add: loop_turn_def Let_def retry_env_def example_env_def format_answer_def
        truncate_answer_def example_parse_def startswith_def)
  have w: "while_loop (Suc 0) retry_env init None =
     Some (Raised (OutputParserException
                     ''Invalid Format: I missed the Action or the Final Answer'') None,
           init\<lparr>iterations := 1, trace := [LLMCalled (Some (stop retry_env)) []]\<rparr>)"
    by (simp add: g t0 init_def)
  have i3: "invoke_loop (Suc (Suc (Suc 0))) retry_env
        (init\<lparr>iterations := 1, trace := [LLMCalled (Some (stop retry_env)) []],
              messages := [\<lparr>role = ''assistant'',
                            content = ''Invalid Format: I missed the Action or the Final Answer''\<rparr>]\<rparr>)
        None =
       Some (Inr (Some (AgentFinish \<lparr>finish_output = ''4'', finish_text = ''Final Answer: 4''\<rparr>)),
             init\<lparr>iterations := 2,
                  trace := [LLMCalled (Some (stop retry_env)) [],
                            LLMCalled (Some (stop retry_env))
                              [\<lparr>role = ''assistant'',
                                content = ''Invalid Format: I missed the Action or the Final Answer''\<rparr>]],
                  messages := [\<lparr>role = ''assistant'',
                                content = ''Invalid Format: I missed the Action or the Final Answer''\<rparr>]\<rparr>)"
    by (simp add: g t1 init_def)
  have i4: "invoke_loop (Suc (Suc (Suc (Suc 0)))) retry_env init None =
       Some (Inr None,
             init\<lparr>iterations := 2,
                  trace := [LLMCalled (Some (stop retry_env)) [],
                            LLMCalled (Some (stop retry_env))
                              [\<lparr>role = ''assistant'',
                                content = ''Invalid Format: I missed the Action or the Final Answer''\<rparr>]],
                  messages := [\<lparr>role = ''assistant'',
                                content = ''Invalid Format: I missed the Action or the Final Answer''\<rparr>]\<rparr>)"
    by (simp add: g t0 t1 init_def)
  have p: "prompt retry_env = [''prompt'' \<mapsto> ''Question: {input}'']"
    by (simp add: retry_env_def example_env_def)
  have sd: "seed_messages retry_env init
              [''input'' \<mapsto> ''2+2'', ''tool_names'' \<mapsto> [], ''tools'' \<mapsto> []]
            = Inr (init\<lparr>messages := [\<lparr>role = ''user'', content = ''Question: 2+2''\<rparr>]\<rparr>)"
    by (simp add: seed_messages_def p prompt_get_def format_prompt_def format_msg_def
        startswith_def init_def)
  have i5: "map_option fst
        (invoke (Suc (Suc (Suc (Suc 0)))) retry_env init
           [''input'' \<mapsto> ''2+2'', ''tool_names'' \<mapsto> [], ''tools'' \<mapsto> []])
       = Some (Inl (AttributeError ''output''))"
    unfolding invoke_def sd by (simp add: g t0 t1 init_def)
  from w i3 i4 i5 show ?thesis by blast
qed

text \<open>
  C9. \<^verbatim>\<open>_handle_crew_training_output\<close> in a revision round (records of the agent are
  stored, no human input is pending): the record of the crew's iteration is indexed
  without a check, so an iteration that has no record, or an iteration of the wrong
  type, raises \<^verbatim>\<open>KeyError\<close>; only the feedback round checks the type and logs.
\<close>

theorem training_revision_raises:
  "handle_crew_training_output training_env init
     \<lparr>finish_output = ''4'', finish_text = ''Final Answer: 4''\<rparr> None
   = (Inl (KeyError (PyInt 1)), init\<lparr>trace := [TrainingLoaded, TrainingLoaded]\<rparr>)
   \<and> handle_crew_training_output
       (training_env\<lparr>the_crew := Some \<lparr>train = True, train_iteration = Some (PyStr ''1'')\<rparr>\<rparr>)
       init \<lparr>finish_output = ''4'', finish_text = ''Final Answer: 4''\<rparr> None
   = (Inl (KeyError (PyStr ''1'')), init\<lparr>trace := [TrainingLoaded, TrainingLoaded]\<rparr>)
   \<and> handle_crew_training_output
       (training_env\<lparr>the_crew := Some \<lparr>train = True, train_iteration = Some (PyStr ''1'')\<rparr>\<rparr>)
       (init\<lparr>ask_for_human_input := True\<rparr>)
       \<lparr>finish_output = ''4'', finish_text = ''Final Answer: 4''\<rparr> (Some ''Looks good'')
   = (Inr (),
      init\<lparr>ask_for_human_input := True,
           trace := [TrainingLoaded,
                     Logged ''error'' ''Invalid train iteration type. Expected int.'']\<rparr>)"
  by (simp add: handle_crew_training_output_def training_improved_output_def
      training_feedback_def training_env_def example_env_def init_def log_def)

text \<open>
  C6. With \<^verbatim>\<open>respect_context_window\<close> unset, \<^verbatim>\<open>_handle_context_length\<close> logs and raises
  \<^verbatim>\<open>SystemExit\<close> with the operator's message; it never returns normally. When the loop
  raises a context-limit error, \<^verbatim>\<open>_invoke_loop\<close> ends with that \<^verbatim>\<open>SystemExit\<close>. No
  handler of the loop catches it: every run of \<^verbatim>\<open>_invoke_loop\<close>, re-entries included, and
  every run of \<^verbatim>\<open>invoke\<close> during which the overflow was logged ends with this
  \<^verbatim>\<open>SystemExit\<close>, and so returns no \<^verbatim>\<open>AgentFinish\<close> and no output.
\<close>

theorem overflow_without_summarization_aborts:
  "(\<not> respect_context_window e \<longrightarrow>
      handle_context_length e st =
        (Inl (SystemExit
           ''Context length exceeded and user opted not to summarize. Consider using smaller text or RAG tools from crewai_tools.''),
         st\<lparr>trace := trace st @
           [Logged ''debug''
              ''Context length exceeded. Consider using smaller text or RAG tools from crewai_tools.'']\<rparr>))
   \<and> (\<not> respect_context_window e
        \<and> while_loop n e s fa = Some (Raised (Exception m) fa1, s1)
        \<and> is_context_limit_error e m \<longrightarrow>
        invoke_loop (Suc n) e s fa =
          Some (Inl (SystemExit
                  ''Context length exceeded and user opted not to summarize. Consider using smaller text or RAG tools from crewai_tools.''),
                s1\<lparr>trace := trace s1 @
                  [Logged ''debug''
                     ''Context length exceeded. Consider using smaller text or RAG tools from crewai_tools.'']\<rparr>))
   \<and> (\<not> respect_context_window e
        \<and> invoke_loop k e t fb = Some (r, t')
        \<and> Logged ''debug''
             ''Context length exceeded. Consider using smaller text or RAG tools from crewai_tools.''
            \<in> set (drop (length (trace t)) (trace t')) \<longrightarrow>
        r = Inl (SystemExit
              ''Context length exceeded and user opted not to summarize. Consider using smaller text or RAG tools from crewai_tools.''))
   \<and> (\<not> respect_context_window e
        \<and> invoke j e u inputs = Some (ri, u')
        \<and> Logged ''debug''
             ''Context length exceeded. Consider using smaller text or RAG tools from crewai_tools.''
            \<in> set (drop (length (trace u)) (trace u')) \<longrightarrow>
        ri = Inl (LoopError (SystemExit
              ''Context length exceeded and user opted not to summarize. Consider using smaller text or RAG tools from crewai_tools.'')))"
proof -
  let ?L = "Logged ''debug''
              ''Context length exceeded. Consider using smaller text or RAG tools from crewai_tools.''"
  let ?X = "SystemExit
              ''Context length exceeded and user opted not to summarize. Consider using smaller text or RAG tools from crewai_tools.''"
  have p1: "\<not> respect_context_window e \<longrightarrow>
      handle_context_length e st = (Inl ?X, st\<lparr>trace := trace st @ [?L]\<rparr>)"
    using handle_context_length_exit by blast
  have p2: "invoke_loop (Suc n) e s fa = Some (Inl ?X, s1\<lparr>trace := trace s1 @ [?L]\<rparr>)"
    if "\<not> respect_context_window e" "while_loop n e s fa = Some (Raised (Exception m) fa1, s1)"
      "is_context_limit_error e m"
    using that handle_context_length_exit[OF that(1), of s1] by simp
  have p3: "r = Inl ?X"
    if "\<not> respect_context_window e" "invoke_loop k e t fb = Some (r, t')"
      "?L \<in> set (drop (length (trace t)) (trace t'))"
  proof -
    from invoke_loop_exit[OF that(1,2)] obtain evs where
      "trace t' = trace t @ evs" "(\<exists>l m. Logged l m \<in> set evs) \<longrightarrow> r = Inl ?X" by blast
    with that(3) show ?thesis by auto
  qed
  have p4: "ri = Inl (LoopError ?X)"
    if "\<not> respect_context_window e" "invoke j e u inputs = Some (ri, u')"
      "?L \<in> set (drop (length (trace u)) (trace u'))"
  proof -
    from invoke_exit[OF that(1,2)] obtain evs where
      "trace u' = trace u @ evs" "?L \<in> set evs \<longrightarrow> ri = Inl (LoopError ?X)" by blast
    with that(3) show ?thesis by auto
  qed
  from p1 p2 p3 p4 show ?thesis by blast
qed

theorem overflow_without_summarization_aborts_witness:
  "\<not> respect_context_window overflow_env
   \<and> while_loop (Suc 0) overflow_env init None =
       Some (Raised (Exception ''This model has a maximum context length of 8192 tokens'') None,
             init\<lparr>trace := [LLMCalled (Some (stop overflow_env)) []]\<rparr>)
   \<and> is_context_limit_error overflow_env ''This model has a maximum context length of 8192 tokens''
   \<and> invoke_loop (Suc (Suc 0)) overflow_env init None =
       Some (Inl (SystemExit
               ''Context length exceeded and user opted not to summarize. Consider using smaller text or RAG tools from crewai_tools.''),
             init\<lparr>trace := [LLMCalled (Some (stop overflow_env)) [],
                  Logged ''debug''
                    ''Context length exceeded. Consider using smaller text or RAG tools from crewai_tools.'']\<rparr>)
   \<and> map_option fst
        (invoke (Suc (Suc 0)) overflow_env init
           [''input'' \<mapsto> ''2+2'', ''tool_names'' \<mapsto> [], ''tools'' \<mapsto> []])
       = Some (Inl (LoopError (SystemExit
               ''Context length exceeded and user opted not to summarize. Consider using smaller text or RAG tools from crewai_tools.'')))"
proof -
  let ?L = "Logged ''debug''
              ''Context length exceeded. Consider using smaller text or RAG tools from crewai_tools.''"
  let ?X = "SystemExit
              ''Context length exceeded and user opted not to summarize. Consider using smaller text or RAG tools from crewai_tools.''"
  let ?m = "''This model has a maximum context length of 8192 tokens''"
  let ?inputs = "[''input'' \<mapsto> ''2+2'', ''tool_names'' \<mapsto> [], ''tools'' \<mapsto> []]"
  have nr: "\<not> respect_context_window overflow_env" by (simp add: overflow_env_def)
  have g: "rpm_gate overflow_env st = (True, st)" for st
    by (simp add: rpm_gate_def overflow_env_def example_env_def)
  have t: "loop_turn overflow_env st =
       (Raise (Exception ?m),
        st\<lparr>trace := trace st @ [LLMCalled (Some (stop overflow_env)) (messages st)]\<rparr>)" for st
    by (simp add: loop_turn_def Let_def overflow_env_def example_env_def)
  have w: "while_loop (Suc 0) overflow_env init None =
       Some (Raised (Exception ?m) None,
             init\<lparr>trace := [LLMCalled (Some (stop overflow_env)) []]\<rparr>)"
    by (simp add: g t init_def)
  have c: "is_context_limit_error overflow_env ?m"
    by (simp add: overflow_env_def example_env_def startswith_def)
  from overflow_without_summarization_aborts[where e=overflow_env and n="Suc 0" and s=init
      and fa=None and m="?m" and ?fa1.0=None
      and ?s1.0="init\<lparr>trace := [LLMCalled (Some (stop overflow_env)) []]\<rparr>"] nr w c
  have i: "invoke_loop (Suc (Suc 0)) overflow_env init None =
       Some (Inl ?X, init\<lparr>trace := [LLMCalled (Some (stop overflow_env)) [], ?L]\<rparr>)"
    by (simp add: init_def)
  have p: "prompt overflow_env = [''prompt'' \<mapsto> ''Question: {input}'']"
    by (simp add: overflow_env_def example_env_def)
  have sd: "seed_messages overflow_env init ?inputs
            = Inr (init\<lparr>messages := [\<lparr>role = ''user'', content = ''Question: 2+2''\<rparr>]\<rparr>)"
    by (simp add: seed_messages_def p prompt_get_def format_prompt_def format_msg_def
        startswith_def init_def)
  have h: "handle_context_length overflow_env st = (Inl ?X, st\<lparr>trace := trace st @ [?L]\<rparr>)" for st
    by (simp add: handle_context_length_def nr log_def)
  have v: "invoke (Suc (Suc 0)) overflow_env init ?inputs =
      Some (Inl (LoopError ?X),
            init\<lparr>messages := [\<lparr>role = ''user'', content = ''Question: 2+2''\<rparr>],
                 trace := [LLMCalled (Some (stop overflow_env))
                             [\<lparr>role = ''user'', content = ''Question: 2+2''\<rparr>], ?L]\<rparr>)"
    unfolding invoke_def sd by (simp add: g t c h init_def)
  from nr w c i v show ?thesis by simp
qed

text \<open>
  C7. The conversation only grows by appending: seeding the prompt and every turn of the
  loop leave the earlier messages as a prefix; a run of \<^verbatim>\<open>_invoke_loop\<close> or of \<^verbatim>\<open>invoke\<close>
  during which no summarization was logged leaves the conversation it started from as
  a prefix of the one it ends with. Context-overflow recovery, when it returns, replaces
  the conversation by exactly one summarizing message, and after any run the
  conversation either extends the initial one or begins with such a message.
\<close>

theorem conversation_grows_or_is_summarized:
  "(seed_messages e st inputs = Inr st1 \<longrightarrow> (\<exists>ms. messages st1 = messages st @ ms))
   \<and> (loop_turn e s = (t, s') \<longrightarrow> (\<exists>ms. messages s' = messages s @ ms))
   \<and> (respect_context_window e \<and> handle_context_length e h = (Inr u, h') \<longrightarrow>
        (\<exists>c. messages h' = [format_msg (summary (i18n e) c) ''user'']))
   \<and> (invoke_loop n e p fa = Some (r, p') \<longrightarrow>
        (Logged ''debug''
           ''Context length exceeded. Summarizing content to fit the model context window.''
          \<notin> set (drop (length (trace p)) (trace p')) \<longrightarrow>
          (\<exists>ms. messages p' = messages p @ ms))
        \<and> ((\<exists>ms. messages p' = messages p @ ms)
           \<or> (\<exists>c ms. messages p' = format_msg (summary (i18n e) c) ''user'' # ms)))
   \<and> (invoke k e q inputs' = Some (ri, q') \<longrightarrow>
        (Logged ''debug''
           ''Context length exceeded. Summarizing content to fit the model context window.''
          \<notin> set (drop (length (trace q)) (trace q')) \<longrightarrow>
          (\<exists>ms. messages q' = messages q @ ms))
        \<and> ((\<exists>ms. messages q' = messages q @ ms)
           \<or> (\<exists>c ms. messages q' = format_msg (summary (i18n e) c) ''user'' # ms)))"
proof -
  let ?S = "Logged ''debug''
              ''Context length exceeded. Summarizing content to fit the model context window.''"
  have p1: "seed_messages e st inputs = Inr st1 \<longrightarrow> (\<exists>ms. messages st1 = messages st @ ms)"
    using seed_messages_frame(2) by blast
  have p2: "loop_turn e s = (t, s') \<longrightarrow> (\<exists>ms. messages s' = messages s @ ms)"
    using loop_turn_frame(1) by blast
  have p3: "respect_context_window e \<and> handle_context_length e h = (Inr u, h') \<longrightarrow>
        (\<exists>c. messages h' = [format_msg (summary (i18n e) c) ''user''])"
    using handle_context_length_summarizing(3) by blast
  have p4: "(?S \<notin> set (drop (length (trace p)) (trace p')) \<longrightarrow>
              (\<exists>ms. messages p' = messages p @ ms))
        \<and> ((\<exists>ms. messages p' = messages p @ ms)
           \<or> (\<exists>c ms. messages p' = format_msg (summary (i18n e) c) ''user'' # ms))"
    if a: "invoke_loop n e p fa = Some (r, p')"
  proof -
    from invoke_loop_messages[OF a] obtain evs where
      ev: "trace p' = trace p @ evs" "?S \<notin> set evs \<longrightarrow> (\<exists>ms. messages p' = messages p @ ms)"
      and d: "(\<exists>ms. messages p' = messages p @ ms)
           \<or> (\<exists>c ms. messages p' = format_msg (summary (i18n e) c) ''user'' # ms)" by blast
    from ev have "?S \<notin> set (drop (length (trace p)) (trace p')) \<longrightarrow>
              (\<exists>ms. messages p' = messages p @ ms)" by simp
    with d show ?thesis by blast
  qed
  have p5: "(?S \<notin> set (drop (length (trace q)) (trace q')) \<longrightarrow>
              (\<exists>ms. messages q' = messages q @ ms))
        \<and> ((\<exists>ms. messages q' = messages q @ ms)
           \<or> (\<exists>c ms. messages q' = format_msg (summary (i18n e) c) ''user'' # ms))"
    if a: "invoke k e q inputs' = Some (ri, q')"
  proof -
    from invoke_messages[OF a] obtain evs where
      ev: "trace q' = trace q @ evs" "?S \<notin> set evs \<longrightarrow> (\<exists>ms. messages q' = messages q @ ms)"
      and d: "(\<exists>ms. messages q' = messages q @ ms)
           \<or> (\<exists>c ms. messages q' = format_msg (summary (i18n e) c) ''user'' # ms)" by blast
    from ev have "?S \<notin> set (drop (length (trace q)) (trace q')) \<longrightarrow>
              (\<exists>ms. messages q' = messages q @ ms)" by simp
    with d show ?thesis by blast
  qed
  from p1 p2 p3 p4 p5 show ?thesis by blast
qed

theorem conversation_grows_or_is_summarized_witness:
  "seed_messages limited_env init
     [''input'' \<mapsto> ''2+2'', ''tool_names'' \<mapsto> [], ''tools'' \<mapsto> []]
     = Inr (init\<lparr>messages := [\<lparr>role = ''user'', content = ''Question: 2+2''\<rparr>]\<rparr>)
   \<and> respect_context_window limited_env
   \<and> handle_context_length limited_env
       (init\<lparr>messages := [\<lparr>role = ''user'', content = replicate 110 CHR ''x''\<rparr>,
                           \<lparr>role = ''assistant'', content = replicate 110 CHR ''y''\<rparr>]\<rparr>)
     = (Inr (),
        init\<lparr>messages := [\<lparr>role = ''user'',
                    content = ''This is a summary of our conversation so far: Final Answer: 4 Final Answer: 4''\<rparr>],
             trace := [Logged ''debug''
                 ''Context length exceeded. Summarizing content to fit the model context window.'',
               LLMCalled None (summarize_prompt limited_env (replicate 110 CHR ''x'')),
               LLMCalled None (summarize_prompt limited_env (replicate 110 CHR ''y''))]\<rparr>)
   \<and> map_option (\<lambda>x. (fst x, messages (snd x)))
       (invoke_loop (Suc (Suc (Suc (Suc 0)))) limited_env
          (init\<lparr>messages := [\<lparr>role = ''user'', content = replicate 110 CHR ''x''\<rparr>,
                              \<lparr>role = ''assistant'', content = replicate 110 CHR ''y''\<rparr>]\<rparr>) None)
     = Some (Inr None,
             [\<lparr>role = ''user'',
               content = ''This is a summary of our conversation so far: Final Answer: 4 Final Answer: 4''\<rparr>])
   \<and> invoke (Suc (Suc (Suc 0))) limited_env init
       [''input'' \<mapsto> ''2+2'', ''tool_names'' \<mapsto> [], ''tools'' \<mapsto> []]
     = Some (Inr ''4'',
             init\<lparr>messages := [\<lparr>role = ''user'', content = ''Question: 2+2''\<rparr>],
                  iterations := 1,
                  trace := [LLMCalled (Some (stop limited_env))
                              [\<lparr>role = ''user'', content = ''Question: 2+2''\<rparr>]]\<rparr>)
   \<and> Logged ''debug''
         ''Context length exceeded. Summarizing content to fit the model context window.''
       \<notin> set (drop (length (trace init))
                [LLMCalled (Some (stop limited_env))
                   [\<lparr>role = ''user'', content = ''Question: 2+2''\<rparr>]])
   \<and> (\<exists>ms. [\<lparr>role = ''user'', content = ''Question: 2+2''\<rparr>] = messages init @ ms)"
proof -
  let ?inputs = "[''input'' \<mapsto> ''2+2'', ''tool_names'' \<mapsto> [], ''tools'' \<mapsto> []]"
  let ?p = "init\<lparr>messages := [\<lparr>role = ''user'', content = replicate 110 CHR ''x''\<rparr>,
                           \<lparr>role = ''assistant'', content = replicate 110 CHR ''y''\<rparr>]\<rparr>"
  let ?S = "Logged ''debug''
              ''Context length exceeded. Summarizing content to fit the model context window.''"
  let ?sum = "\<lparr>role = ''user'',
      content = ''This is a summary of our conversation so far: Final Answer: 4 Final Answer: 4''\<rparr>"
  let ?h' = "init\<lparr>messages := [?sum],
             trace := [?S,
               LLMCalled None (summarize_prompt limited_env (replicate 110 CHR ''x'')),
               LLMCalled None (summarize_prompt limited_env (replicate 110 CHR ''y''))]\<rparr>"
  let ?q' = "init\<lparr>messages := [\<lparr>role = ''user'', content = ''Question: 2+2''\<rparr>],
                  iterations := 1,
                  trace := [LLMCalled (Some (stop limited_env))
                              [\<lparr>role = ''user'', content = ''Question: 2+2''\<rparr>]]\<rparr>"
  have pr: "prompt limited_env = [''prompt'' \<mapsto> ''Question: {input}'']"
    by (simp add: limited_env_def example_env_def)
  have sd: "seed_messages limited_env init ?inputs
            = Inr (init\<lparr>messages := [\<lparr>role = ''user'', content = ''Question: 2+2''\<rparr>]\<rparr>)"
    by (simp add: seed_messages_def pr prompt_get_def format_prompt_def format_msg_def
        startswith_def init_def)
  have rc: "respect_context_window limited_env" by (simp add: limited_env_def example_env_def)
  have g: "rpm_gate limited_env st = (True, st)" for st
    by (simp add: rpm_gate_def limited_env_def example_env_def)
  have mg: "messages_groups [\<lparr>role = ''user'', content = replicate 110 CHR ''x''\<rparr>,
                           \<lparr>role = ''assistant'', content = replicate 110 CHR ''y''\<rparr>]
            = [replicate 110 CHR ''x'', replicate 110 CHR ''y'']"
    by (simp add: messages_groups_def range_step.simps slice_def)
  have hc: "handle_context_length limited_env ?p = (Inr (), ?h')"
    by (simp add: handle_context_length_def rc log_def summarize_messages_def init_def mg
        summarize_prompt_def format_msg_def limited_env_def example_env_def en_def)
  have t1: "loop_turn limited_env st =
       (Raise (Exception ''This model has a maximum context length of 200 characters''),
        st\<lparr>trace := trace st @ [LLMCalled (Some (stop limited_env)) (messages st)]\<rparr>)"
    if "200 < length (concat (map content (messages st)))" for st
    using that by (simp add: loop_turn_def Let_def limited_env_def example_env_def)
  have t2: "loop_turn limited_env st =
       (Next (Some (AgentFinish \<lparr>finish_output = ''4'', finish_text = ''Final Answer: 4''\<rparr>)),
        st\<lparr>trace := trace st @ [LLMCalled (Some (stop limited_env)) (messages st)],
           iterations := iterations st + 1\<rparr>)"
    if "length (concat (map content (messages st))) \<le> 200" for st
    using that
    by (simp add: loop_turn_def Let_def limited_env_def example_env_def format_answer_def
        truncate_answer_def example_parse_def startswith_def)
  have c: "is_context_limit_error limited_env
             ''This model has a maximum context length of 200 characters''"
    by (simp add: limited_env_def example_env_def startswith_def)
  have lc: "llm_call limited_env st sa ms =
      (if 200 < length (concat (map content ms))
       then Inl (Exception ''This model has a maximum context length of 200 characters'')
       else Inr ''Final Answer: 4'')" for st sa ms
    by (simp add: limited_env_def)
  have i18: "i18n limited_env = en" by (simp add: limited_env_def example_env_def)
  have il: "map_option (\<lambda>x. (fst x, messages (snd x)))
       (invoke_loop (Suc (Suc (Suc (Suc 0)))) limited_env ?p None) = Some (Inr None, [?sum])"
    by (simp add: g t1 t2 c lc i18 rc handle_context_length_def log_def summarize_messages_def
        mg summarize_prompt_def format_msg_def en_def init_def)
  have iv: "invoke (Suc (Suc (Suc 0))) limited_env init ?inputs = Some (Inr ''4'', ?q')"
    unfolding invoke_def sd by (simp add: g t2 init_def)
  from conversation_grows_or_is_summarized[where e=limited_env and st=init and inputs="?inputs"
      and k="Suc (Suc (Suc 0))" and q=init and inputs'="?inputs" and ri="Inr ''4''" and q'="?q'"]
    sd iv
  have "Logged ''debug''
         ''Context length exceeded. Summarizing content to fit the model context window.''
       \<notin> set (drop (length (trace init)) (trace ?q')) \<longrightarrow>
       (\<exists>ms. messages ?q' = messages init @ ms)"
    by blast
  hence "\<exists>ms. [\<lparr>role = ''user'', content = ''Question: 2+2''\<rparr>] = messages init @ ms"
    by (simp add: init_def)
  with sd rc hc il iv show ?thesis by (simp add: init_def)
qed

end
